theory Spec2Isabelle
  imports Complex_Main "HOL-Library.Multiset"
begin

section \<open>The ingestion and retrieval pipeline of vector_database.py\<close>

text \<open>
  The module is a composition of three client libraries (file loaders and the text
  splitter, the embedding client, the vector index client) around one module-global
  handle \<open>_vector_db\<close>. The embedding follows the module function by function. What
  the libraries compute is not code of the module: the content of the files, the PDF
  and markdown loaders, the splitter and the ranking answered by the index service are
  parameters (the record \<open>env\<close>); the remote index service is an explicit store,
  modelled from the design's description of it; a call that goes over the network
  consults a tape of injected failures, so that every exception a client library can
  raise is a branch of the model. The claims about what the splitter itself computes
  are settled on a splitter modelled from the design, which is kept apart from the
  module's functions.
\<close>

subsection \<open>Data\<close>

text \<open>A langchain Document: the text and the metadata the module relies on.\<close>

record document =
  page_content :: string
  source :: string
  start_index :: "int option"

text \<open>A search hit: the stored document and its relevance score (a Python float,
  taken as a real number: no NaN).\<close>

type_synonym hit = "document \<times> real"

text \<open>An exception raised inside a client library during a network call.\<close>

datatype fault = Timeout | RateLimited | Unauthorized | NotFound | AlreadyExists | DimensionMismatch

text \<open>The three \<open>ValueError\<close>s the module raises itself.\<close>

datatype value_error =
    ApiKeyNotSet                 \<comment> \<open>"PINECONE_API_KEY is not set."\<close>
  | UnsupportedFileType string   \<comment> \<open>"Unsupported file type: {file_path}"\<close>
  | FilesPathRequired            \<comment> \<open>"Either files_path or directory_path must be provided."\<close>

text \<open>
  The exceptions. A \<open>TypeError\<close> and a \<open>RuntimeError\<close> carry their text;
  \<open>UnicodeDecodeError\<close> is what reading a file in the wrong encoding raises.
\<close>

datatype error =
    ValueError value_error
  | TypeError string
  | RuntimeError string
  | UnicodeDecodeError
  | LoaderError string           \<comment> \<open>any other exception of a file loader, with its text\<close>
  | ServiceError fault

text \<open>The lines the module prints, in the order of the source.\<close>

datatype message =
    LoadedExistingIndex string   \<comment> \<open>"Loaded existing Pinecone index '{name}'"\<close>
  | IndexNotFound string         \<comment> \<open>"Pinecone index '{name}' not found. Please create it first."\<close>
  | ApiKeyNotFound               \<comment> \<open>"PINECONE_API_KEY not found in environment variables."\<close>
  | DeletedIndex string          \<comment> \<open>"Deleted existing Pinecone index '{name}'"\<close>
  | CreatedIndex string          \<comment> \<open>"Created new Pinecone index '{name}'"\<close>
  | AddedChunks nat string       \<comment> \<open>"Added {n} chunks to Pinecone index '{name}'."\<close>
  | NoVectorDatabase             \<comment> \<open>"No vector database available. Please create one first."\<close>
  | UnableToFindMatching         \<comment> \<open>"Unable to find matching results."\<close>
  | ConnectionClosed             \<comment> \<open>"Vector database connection closed."\<close>
  | ErrorLoading string string   \<comment> \<open>"Error loading {file_path}: {str(e)}"\<close>
  | LoadedDocuments nat nat      \<comment> \<open>"Loaded {n} documents from {m} files."\<close>
  | SplitDocuments nat nat       \<comment> \<open>"Split {n} documents into {m} chunks."\<close>
  | ErrorProcessing string       \<comment> \<open>"Error processing files: {e}", \<open>e\<close> formatted as \<open>str(e)\<close>\<close>

text \<open>A vector store object bound to an index; \<open>obj_id\<close> is the object's identity.\<close>

record handle =
  obj_id :: nat
  bound_index :: string

text \<open>A remote index: the dimension fixed at creation and the records stored.\<close>

record index =
  dimension :: nat
  records :: "document list"

text \<open>The module constants read from the environment at import.\<close>

record config =
  PINECONE_API_KEY :: "string option"
  PINECONE_INDEX_NAME :: string

text \<open>
  The state the module's functions read and change: the remote indexes by name, the
  module-global \<open>_vector_db\<close>, the failures still to be injected (one entry per network
  call, \<open>None\<close> for a call that goes through; an empty tape injects nothing), the next
  free object identity, and what has been printed.
\<close>

record world =
  remote :: "(string \<times> index) list"
  vector_db :: "handle option"
  faults :: "fault option list"
  next_obj :: nat
  out :: "message list"

datatype encoding = Utf8 | Latin1

text \<open>
  What lies outside the module, as parameters: reading a file as text in an encoding
  (\<open>open(path, encoding=...).read()\<close>, which raises \<open>UnicodeDecodeError\<close> on bytes
  that are not text in that encoding), \<open>PyPDFLoader(path).load()\<close>,
  \<open>UnstructuredMarkdownLoader(path).load()\<close>,
  \<open>RecursiveCharacterTextSplitter(chunk_size, chunk_overlap, length_function=len,
  add_start_index=True).split_documents\<close>, the hits the index service answers for a
  query text and \<open>k\<close> over the records it stores, and the text \<open>str(e)\<close> of an
  exception that a library raises.
\<close>

record env =
  read_file :: "string \<Rightarrow> encoding \<Rightarrow> error + string"
  pdf_loader :: "string \<Rightarrow> error + document list"
  markdown_loader :: "string \<Rightarrow> error + document list"
  split_documents :: "nat \<Rightarrow> nat \<Rightarrow> document list \<Rightarrow> document list"
  nearest :: "document list \<Rightarrow> string \<Rightarrow> int \<Rightarrow> hit list"
  library_text :: "error \<Rightarrow> string"

text \<open>
  \<open>str(e)\<close>: the text of an exception. The module's own \<open>ValueError\<close>s have the
  texts of the source; a \<open>TypeError\<close>, a \<open>RuntimeError\<close> and a loader's exception
  carry theirs; the text of the others is the library's.
\<close>

definition str_of :: "env \<Rightarrow> error \<Rightarrow> string" where
  "str_of ev e =
     (case e of
        ValueError ApiKeyNotSet \<Rightarrow> ''PINECONE_API_KEY is not set.''
      | ValueError (UnsupportedFileType file_path) \<Rightarrow> ''Unsupported file type: '' @ file_path
      | ValueError FilesPathRequired \<Rightarrow> ''Either files_path or directory_path must be provided.''
      | TypeError t \<Rightarrow> t
      | RuntimeError t \<Rightarrow> t
      | LoaderError t \<Rightarrow> t
      | UnicodeDecodeError \<Rightarrow> library_text ev UnicodeDecodeError
      | ServiceError f \<Rightarrow> library_text ev (ServiceError f))"

text \<open>
  \<open>TextLoader(file_path, encoding=...).load()\<close>: one document with the content of the
  file. The library's loader catches every exception of reading the file, a
  \<open>UnicodeDecodeError\<close> included, and raises \<open>RuntimeError("Error loading
  {file_path}")\<close> in its place.
\<close>

definition text_loader :: "env \<Rightarrow> string \<Rightarrow> encoding \<Rightarrow> error + document list" where
  "text_loader ev file_path enc =
     (case read_file ev file_path enc of
        Inl e \<Rightarrow> Inl (RuntimeError (''Error loading '' @ file_path))
      | Inr content \<Rightarrow>
          Inr [\<lparr>page_content = content, source = file_path, start_index = None\<rparr>])"

subsection \<open>Computations that may raise and that change the world\<close>

type_synonym 'a io = "world \<Rightarrow> (error + 'a) \<times> world"

definition pure_io :: "'a \<Rightarrow> 'a io" where
  "pure_io x w = (Inr x, w)"

definition raise_io :: "error \<Rightarrow> 'a io" where
  "raise_io e w = (Inl e, w)"

definition bind_io :: "'a io \<Rightarrow> ('a \<Rightarrow> 'b io) \<Rightarrow> 'b io" where
  "bind_io m f w = (case m w of (Inl e, w') \<Rightarrow> (Inl e, w') | (Inr x, w') \<Rightarrow> f x w')"

definition print_io :: "message \<Rightarrow> unit io" where
  "print_io m w = (Inr (), w\<lparr>out := out w @ [m]\<rparr>)"

definition set_vector_db :: "handle option \<Rightarrow> unit io" where
  "set_vector_db h w = (Inr (), w\<lparr>vector_db := h\<rparr>)"

text \<open>
  Modelled from the spec: a call to a remote service. "All suspension points are network
  I/O: embedding-service calls and index-service calls", and each may fail with a
  transient error (network timeout, rate limiting) or a fatal one. One network call
  takes the next entry of the tape and raises what it injects.
\<close>

definition network_call :: "unit io" where
  "network_call w =
     (case faults w of
        [] \<Rightarrow> (Inr (), w)
      | None # fs \<Rightarrow> (Inr (), w\<lparr>faults := fs\<rparr>)
      | Some f # fs \<Rightarrow> (Inl (ServiceError f), w\<lparr>faults := fs\<rparr>))"

text \<open>Python's truth value of \<open>os.environ.get(...)\<close>: neither \<open>None\<close> nor empty.\<close>

definition truthy :: "string option \<Rightarrow> bool" where
  "truthy v = (case v of None \<Rightarrow> False | Some s \<Rightarrow> s \<noteq> [])"

subsection \<open>The index service\<close>

text \<open>Modelled from the spec: the index service's "list indexes", called as
  \<open>pinecone.list_indexes().names()\<close>.\<close>

definition list_indexes :: "string list io" where
  "list_indexes = bind_io network_call (\<lambda>_ w. (Inr (map fst (remote w)), w))"

text \<open>Modelled from the spec: "\<open>destroy_index(name)\<close>: deletes the named index", called
  as \<open>pinecone.delete_index(name)\<close>: the index and every record in it are gone.\<close>

definition delete_index :: "string \<Rightarrow> unit io" where
  "delete_index name =
     bind_io network_call (\<lambda>_ w.
       if name \<in> set (map fst (remote w))
       then (Inr (), w\<lparr>remote := filter (\<lambda>p. fst p \<noteq> name) (remote w)\<rparr>)
       else (Inl (ServiceError NotFound), w))"

text \<open>The deployment of a new index, as the repository's scripts pass it:
  \<open>ServerlessSpec(cloud='aws', region='us-east-1')\<close>.\<close>

datatype index_spec = ServerlessSpec string string

text \<open>
  Modelled from the spec: the index service's "create index (name, dimension,
  metric)", called as \<open>pinecone.create_index(name=..., dimension=..., spec=...)\<close>: a
  new, empty index of that dimension. The client's method requires the argument
  \<open>spec\<close>, which the repository's scripts pass (pinecone_utilities.py, lines 514-521;
  recover_pinecone.py, lines 171-178); a call without it raises \<open>TypeError\<close> (a
  required argument, \<open>spec\<close>, is missing) before anything is sent.
\<close>

definition missing_spec :: string where
  "missing_spec =
     ''create_index() missing 1 required positional argument: '' @ [CHR 0x27] @ ''spec''
     @ [CHR 0x27]"

definition create_index :: "string \<Rightarrow> nat \<Rightarrow> index_spec option \<Rightarrow> unit io" where
  "create_index name d spec =
     (case spec of
        None \<Rightarrow> raise_io (TypeError missing_spec)
      | Some _ \<Rightarrow>
          bind_io network_call (\<lambda>_ w.
            if name \<in> set (map fst (remote w))
            then (Inl (ServiceError AlreadyExists), w)
            else (Inr (), w\<lparr>remote := remote w @ [(name, \<lparr>dimension = d, records = []\<rparr>)]\<rparr>)))"

text \<open>A new vector store object.\<close>

definition new_handle :: "string \<Rightarrow> handle io" where
  "new_handle name w =
     (Inr \<lparr>obj_id = next_obj w, bound_index = name\<rparr>, w\<lparr>next_obj := Suc (next_obj w)\<rparr>)"

text \<open>
  Modelled from the spec: the handle to an index that exists ("existence ... must be
  checked before any query or upsert"), obtained by
  \<open>Pinecone.from_existing_index(index_name=name, embedding=OpenAIEmbeddings())\<close>: one
  call to the service to resolve the index, then the object.
\<close>

definition from_existing_index :: "string \<Rightarrow> handle io" where
  "from_existing_index name =
     bind_io network_call (\<lambda>_ w.
       if name \<in> set (map fst (remote w)) then new_handle name w
       else (Inl (ServiceError NotFound), w))"

text \<open>Modelled from the spec: the width of an EmbeddingVector, "e.g. 1536" (the source's
  comment at \<open>create_index\<close>: "OpenAI embeddings are 1536 dimensional").\<close>

definition embedding_dimension :: nat where
  "embedding_dimension = 1536"

text \<open>
  Modelled from the spec: "\<open>upsert(records)\<close>: writes a batch of IndexRecords". The
  module passes no identifiers, so each record gets a fresh one: the batch is added to
  what the index holds and overwrites nothing.
\<close>

fun upsert :: "string \<Rightarrow> document list \<Rightarrow> (string \<times> index) list \<Rightarrow> (string \<times> index) list" where
  "upsert name ds [] = []"
| "upsert name ds ((n, ix) # rest) =
     (if n = name then (n, ix\<lparr>records := records ix @ ds\<rparr>) # rest
      else (n, ix) # upsert name ds rest)"

text \<open>
  Modelled from the spec: the ingestion path Embedder, then Index Store, run by
  \<open>Pinecone.from_documents(documents=chunks, embedding=OpenAIEmbeddings(),
  index_name=name)\<close>: the chunks are embedded (a call to the embedding service), the
  vectors are upserted (a call to the index service; "dimension mismatch with the
  target index is a fatal configuration error"), and a new vector store object is
  returned.
\<close>

definition from_documents :: "document list \<Rightarrow> string \<Rightarrow> handle io" where
  "from_documents chunks name =
     bind_io network_call (\<lambda>_.
     bind_io network_call (\<lambda>_ w.
       case map_of (remote w) name of
         None \<Rightarrow> (Inl (ServiceError NotFound), w)
       | Some ix \<Rightarrow>
           if dimension ix \<noteq> embedding_dimension
           then (Inl (ServiceError DimensionMismatch), w)
           else new_handle name (w\<lparr>remote := upsert name chunks (remote w)\<rparr>)))"

text \<open>
  Modelled from the spec: the retrieval path, "embed the query string" and "query the
  Index Store for the top \<open>k\<close> nearest records", run by
  \<open>vector_db.similarity_search_with_relevance_scores(query=query_text, k=k)\<close>: a call
  to the embedding service, a call to the index service, and the hits the service
  answers over the records the index holds.
\<close>

definition similarity_search_with_relevance_scores ::
    "env \<Rightarrow> handle \<Rightarrow> string \<Rightarrow> int \<Rightarrow> hit list io" where
  "similarity_search_with_relevance_scores ev h query k =
     bind_io network_call (\<lambda>_.
     bind_io network_call (\<lambda>_ w.
       case map_of (remote w) (bound_index h) of
         None \<Rightarrow> (Inl (ServiceError NotFound), w)
       | Some ix \<Rightarrow> (Inr (nearest ev (records ix) query k), w)))"

subsection \<open>The module's functions\<close>

definition get_vector_db :: "config \<Rightarrow> handle option io" where
  "get_vector_db cfg w =
     (if vector_db w = None then
        (if truthy (PINECONE_API_KEY cfg) then
           bind_io list_indexes (\<lambda>names.
             if PINECONE_INDEX_NAME cfg \<in> set names then
               bind_io (from_existing_index (PINECONE_INDEX_NAME cfg)) (\<lambda>h.
               bind_io (set_vector_db (Some h)) (\<lambda>_.
               bind_io (print_io (LoadedExistingIndex (PINECONE_INDEX_NAME cfg))) (\<lambda>_ w'.
                 (Inr (vector_db w'), w'))))
             else
               bind_io (print_io (IndexNotFound (PINECONE_INDEX_NAME cfg))) (\<lambda>_ w'.
                 (Inr (vector_db w'), w'))) w
         else
           bind_io (print_io ApiKeyNotFound) (\<lambda>_ w'. (Inr (vector_db w'), w')) w)
      else (Inr (vector_db w), w))"

text \<open>
  Line 59 is \<open>pinecone.create_index(name=PINECONE_INDEX_NAME, dimension=1536)\<close>: no
  \<open>spec\<close> is passed. The value returned is \<open>_vector_db\<close>, which the line before has
  set to the new object.
\<close>

definition save_to_pinecone :: "config \<Rightarrow> document list \<Rightarrow> bool \<Rightarrow> handle io" where
  "save_to_pinecone cfg chunks overwrite =
     (if \<not> truthy (PINECONE_API_KEY cfg) then raise_io (ValueError ApiKeyNotSet)
      else
        bind_io
          (if overwrite then
             bind_io list_indexes (\<lambda>names.
               if PINECONE_INDEX_NAME cfg \<in> set names then
                 bind_io (delete_index (PINECONE_INDEX_NAME cfg)) (\<lambda>_.
                 bind_io (print_io (DeletedIndex (PINECONE_INDEX_NAME cfg))) (\<lambda>_.
                   set_vector_db None))
               else pure_io ())
           else pure_io ()) (\<lambda>_.
        bind_io list_indexes (\<lambda>names.
        bind_io
          (if PINECONE_INDEX_NAME cfg \<notin> set names then
             bind_io (create_index (PINECONE_INDEX_NAME cfg) 1536 None) (\<lambda>_.
               print_io (CreatedIndex (PINECONE_INDEX_NAME cfg)))
           else pure_io ()) (\<lambda>_.
        bind_io (from_documents chunks (PINECONE_INDEX_NAME cfg)) (\<lambda>h.
        bind_io (set_vector_db (Some h)) (\<lambda>_.
        bind_io (print_io (AddedChunks (length chunks) (PINECONE_INDEX_NAME cfg))) (\<lambda>_.
          pure_io h)))))))"

text \<open>\<open>sorted(results, key=lambda x: x[1], reverse=True)\<close>: a stable sort, highest
  score first, hits of equal score in the order they came.\<close>

definition sorted_reverse :: "hit list \<Rightarrow> hit list" where
  "sorted_reverse results = rev (sort_key snd (rev results))"

text \<open>The slice \<open>xs[:k]\<close>; a negative \<open>k\<close> counts from the end.\<close>

definition slice_to :: "int \<Rightarrow> 'a list \<Rightarrow> 'a list" where
  "slice_to k xs = (if 0 \<le> k then take (nat k) xs else take (length xs - nat (- k)) xs)"

definition query_data :: "env \<Rightarrow> config \<Rightarrow> string \<Rightarrow> real \<Rightarrow> int \<Rightarrow> hit list io" where
  "query_data ev cfg query_text similarity_threshold k =
     bind_io (get_vector_db cfg) (\<lambda>vdb.
       case vdb of
         None \<Rightarrow> bind_io (print_io NoVectorDatabase) (\<lambda>_. pure_io [])
       | Some h \<Rightarrow>
           bind_io (similarity_search_with_relevance_scores ev h query_text k) (\<lambda>results.
             if (case results of [] \<Rightarrow> True | r # _ \<Rightarrow> snd r < similarity_threshold)
             then bind_io (print_io UnableToFindMatching) (\<lambda>_. pure_io [])
             else pure_io (slice_to k (sorted_reverse results))))"

definition close_vector_db :: "unit io" where
  "close_vector_db w =
     (if vector_db w \<noteq> None
      then bind_io (set_vector_db None) (\<lambda>_. print_io ConnectionClosed) w
      else (Inr (), w))"

text \<open>\<open>s.endswith(suffix)\<close>\<close>

definition endswith :: "string \<Rightarrow> string \<Rightarrow> bool" where
  "endswith s suf = (length suf \<le> length s \<and> drop (length s - length suf) s = suf)"

text \<open>
  The loop of \<open>load_documents\<close> over the remaining paths, \<open>documents\<close> being the list
  built so far. A \<open>.txt\<close> file is loaded inside the \<open>try\<close>: only a
  \<open>UnicodeDecodeError\<close> of the first attempt is caught; any exception of the second
  attempt is caught, printed, and the file is left out.
\<close>

fun load_loop :: "env \<Rightarrow> string list \<Rightarrow> document list \<Rightarrow> document list io" where
  "load_loop ev [] documents = pure_io documents"
| "load_loop ev (file_path # rest) documents =
     (if endswith file_path ''.pdf'' then
        (case pdf_loader ev file_path of
           Inl e \<Rightarrow> raise_io e
         | Inr ds \<Rightarrow> load_loop ev rest (documents @ ds))
      else if endswith file_path ''.md'' then
        (case markdown_loader ev file_path of
           Inl e \<Rightarrow> raise_io e
         | Inr ds \<Rightarrow> load_loop ev rest (documents @ ds))
      else if endswith file_path ''.txt'' then
        (case text_loader ev file_path Utf8 of
           Inr ds \<Rightarrow> load_loop ev rest (documents @ ds)
         | Inl UnicodeDecodeError \<Rightarrow>
             (case text_loader ev file_path Latin1 of
                Inr ds \<Rightarrow> load_loop ev rest (documents @ ds)
              | Inl e \<Rightarrow>
                  bind_io (print_io (ErrorLoading file_path (str_of ev e))) (\<lambda>_.
                    load_loop ev rest documents))
         | Inl e \<Rightarrow> raise_io e)
      else raise_io (ValueError (UnsupportedFileType file_path)))"

definition load_documents :: "env \<Rightarrow> string list \<Rightarrow> document list io" where
  "load_documents ev files_paths =
     bind_io (load_loop ev files_paths []) (\<lambda>documents.
     bind_io (print_io (LoadedDocuments (length documents) (length files_paths))) (\<lambda>_.
       pure_io documents))"

definition text_spliter :: "env \<Rightarrow> document list \<Rightarrow> document list io" where
  "text_spliter ev documents =
     (let chunks = split_documents ev 500 100 documents in
      bind_io (print_io (SplitDocuments (length documents) (length chunks))) (\<lambda>_.
        pure_io chunks))"

text \<open>
  \<open>files_paths\<close> defaults to \<open>None\<close>; \<open>if files_paths:\<close> holds for a non-empty list.
  The \<open>try\<close> catches every exception, prints it and returns \<open>(False, str(e))\<close>: a
  pair of a flag and a text, in which the exception itself is gone. So the function
  never raises, and its result is always on the right.
\<close>

definition process_files ::
    "env \<Rightarrow> config \<Rightarrow> string list option \<Rightarrow> bool \<Rightarrow> (bool \<times> string) io" where
  "process_files ev cfg files_paths overwrite w =
     (case bind_io
             (case files_paths of
                Some (p # ps) \<Rightarrow> load_documents ev (p # ps)
              | _ \<Rightarrow> raise_io (ValueError FilesPathRequired)) (\<lambda>documents.
           bind_io (text_spliter ev documents) (\<lambda>chunks.
             save_to_pinecone cfg chunks overwrite)) w of
        (Inl e, w') \<Rightarrow>
          (Inr (False, str_of ev e), w'\<lparr>out := out w' @ [ErrorProcessing (str_of ev e)]\<rparr>)
      | (Inr _, w') \<Rightarrow>
          (Inr (True, ''Files processed and saved to vector database successfully.''), w'))"

subsection \<open>What it means for an injected failure to surface\<close>

text \<open>The entries of the tape that went through.\<close>

definition clean :: "fault option list \<Rightarrow> bool" where
  "clean used = list_all (\<lambda>x. x = None) used"

text \<open>
  \<open>surfaces before after raised\<close>: a run that started with the tape \<open>before\<close> and left
  \<open>after\<close> has consumed a prefix \<open>used\<close>; either every consumed entry went through,
  or the last consumed entry injected a failure, every entry before it went through,
  and that failure is the exception the run ended with. A run that swallowed an injected
  failure, or that made another network call after one, does not satisfy it.
\<close>

definition surfaces :: "fault option list \<Rightarrow> fault option list \<Rightarrow> error option \<Rightarrow> bool" where
  "surfaces before after raised =
     (\<exists>used. before = used @ after \<and>
        (clean used \<or>
         (\<exists>pre f. used = pre @ [Some f] \<and> clean pre \<and> raised = Some (ServiceError f))))"

definition raised_of :: "error + 'a \<Rightarrow> error option" where
  "raised_of r = (case r of Inl e \<Rightarrow> Some e | Inr _ \<Rightarrow> None)"

definition propagating :: "'a io \<Rightarrow> bool" where
  "propagating m = (\<forall>w. surfaces (faults w) (faults (snd (m w))) (raised_of (fst (m w))))"

text \<open>
  \<open>reported ev before after result\<close>: the same for a run that catches the exception
  and returns it as text. Either every consumed entry of the tape went through, or the
  last consumed entry injected a failure, every entry before it went through, and the
  run returned normally the pair \<open>(False, str(e))\<close> for that failure.
\<close>

definition reported ::
    "env \<Rightarrow> fault option list \<Rightarrow> fault option list \<Rightarrow> error + bool \<times> string \<Rightarrow> bool" where
  "reported ev before after result =
     (\<exists>used. before = used @ after \<and>
        (clean used \<or>
         (\<exists>pre f. used = pre @ [Some f] \<and> clean pre
            \<and> result = Inr (False, str_of ev (ServiceError f)))))"

text \<open>The next network call is not failed by the tape.\<close>

definition goes_through :: "world \<Rightarrow> bool" where
  "goes_through w = (case faults w of Some f # _ \<Rightarrow> False | _ \<Rightarrow> True)"

subsection \<open>Sequences of calls\<close>

text \<open>A call of one of the module's functions, with its arguments.\<close>

datatype call =
    Get_vector_db
  | Query_data string real int
  | Close_vector_db
  | Load_documents "string list"
  | Text_spliter "document list"
  | Save_to_pinecone "document list" bool
  | Process_files "string list option" bool

text \<open>The state a call leaves, whether it returns or raises.\<close>

definition perform :: "env \<Rightarrow> config \<Rightarrow> call \<Rightarrow> world \<Rightarrow> world" where
  "perform ev cfg c w =
     (case c of
        Get_vector_db \<Rightarrow> snd (get_vector_db cfg w)
      | Query_data query_text similarity_threshold k \<Rightarrow>
          snd (query_data ev cfg query_text similarity_threshold k w)
      | Close_vector_db \<Rightarrow> snd (close_vector_db w)
      | Load_documents files_paths \<Rightarrow> snd (load_documents ev files_paths w)
      | Text_spliter documents \<Rightarrow> snd (text_spliter ev documents w)
      | Save_to_pinecone chunks overwrite \<Rightarrow> snd (save_to_pinecone cfg chunks overwrite w)
      | Process_files files_paths overwrite \<Rightarrow>
          snd (process_files ev cfg files_paths overwrite w))"

definition run :: "env \<Rightarrow> config \<Rightarrow> call list \<Rightarrow> world \<Rightarrow> world" where
  "run ev cfg calls w = fold (perform ev cfg) calls w"

text \<open>The calls that assign \<open>_vector_db\<close>: closing, saving, and processing files, which
  saves.\<close>

definition assigns_handle :: "call \<Rightarrow> bool" where
  "assigns_handle c =
     (case c of
        Close_vector_db \<Rightarrow> True
      | Save_to_pinecone chunks overwrite \<Rightarrow> True
      | Process_files files_paths overwrite \<Rightarrow> True
      | _ \<Rightarrow> False)"

subsection \<open>A splitter after the design\<close>

text \<open>
  Modelled from the spec: the splitter. The module delegates splitting to the library
  class \<open>RecursiveCharacterTextSplitter\<close>, whose code is not in the repository; only
  the call with \<open>chunk_size=500\<close> and \<open>chunk_overlap=100\<close> is. Section 4.2 describes
  it: "Splitting proceeds character-by-character (not token-aware) using a recursive
  strategy: prefer splitting on paragraph boundaries, then sentence boundaries, then
  arbitrary character boundaries, to avoid cutting mid-word where possible, but a hard
  \<open>chunk_size\<close> ceiling is always respected. Each Chunk records the starting character
  offset within its source Document." The model below is that strategy: a text is cut
  at the first kind of boundary that occurs in it, the pieces are merged greedily into
  chunks, the tail of a chunk that fits in \<open>chunk_overlap\<close> is carried into the next,
  and a piece that is too long is cut again at the next kind of boundary.
\<close>

text \<open>Modelled from the spec: a piece of a document, with "the starting character
  offset within its source Document" and its text.\<close>

type_synonym piece = "nat \<times> string"

text \<open>Modelled from the spec: whether a kind of boundary occurs in a text.\<close>

fun occurs :: "string \<Rightarrow> string \<Rightarrow> bool" where
  "occurs sep [] = (sep = [])"
| "occurs sep (c # cs) = (take (length sep) (c # cs) = sep \<or> occurs sep cs)"

text \<open>
  Modelled from the spec: splitting on a boundary. The pieces of a text cut after each
  occurrence of a non-empty separator (the
  separator stays at the end of the piece it closes); \<open>cur\<close> is the piece being read.
\<close>

function cut_after :: "string \<Rightarrow> string \<Rightarrow> string \<Rightarrow> string list" where
  "cut_after sep cur [] = (if cur = [] then [] else [cur])"
| "cut_after sep cur (c # cs) =
     (if sep \<noteq> [] \<and> take (length sep) (c # cs) = sep
      then (cur @ sep) # cut_after sep [] (drop (length sep) (c # cs))
      else cut_after sep (cur @ [c]) cs)"
  by pat_completeness auto
termination
  by (relation "measure (\<lambda>(sep, cur, rest). length rest)") auto

text \<open>Modelled from the spec: "arbitrary character boundaries": the empty separator cuts
  at every character.\<close>

definition pieces :: "string \<Rightarrow> string \<Rightarrow> string list" where
  "pieces sep text = (if sep = [] then map (\<lambda>c. [c]) text else cut_after sep [] text)"

text \<open>Modelled from the spec: consecutive pieces with the offsets at which they start.\<close>

fun located :: "nat \<Rightarrow> string list \<Rightarrow> piece list" where
  "located off [] = []"
| "located off (p # ps) = (off, p) # located (off + length p) ps"

text \<open>Modelled from the spec: the number of characters of consecutive pieces.\<close>

definition total :: "piece list \<Rightarrow> nat" where
  "total cur = length (concat (map snd cur))"

text \<open>Modelled from the spec: the chunk made of consecutive pieces; it starts where the
  first one starts.\<close>

definition joined :: "piece list \<Rightarrow> piece" where
  "joined cur = (fst (hd cur), concat (map snd cur))"

text \<open>
  Modelled from the spec: the overlap shared with the neighbour. After a chunk is
  emitted, pieces are dropped from its front until what is left fits
  in the overlap and leaves room for the next piece, of length \<open>n\<close>.
\<close>

fun carry_over :: "nat \<Rightarrow> nat \<Rightarrow> nat \<Rightarrow> piece list \<Rightarrow> piece list" where
  "carry_over chunk_size chunk_overlap n [] = []"
| "carry_over chunk_size chunk_overlap n (p # ps) =
     (if total (p # ps) > chunk_overlap \<or> (total (p # ps) + n > chunk_size \<and> total (p # ps) > 0)
      then carry_over chunk_size chunk_overlap n ps
      else p # ps)"

text \<open>Modelled from the spec: the chunks of at most \<open>chunk_size\<close> characters, by greedy
  merging of pieces; \<open>cur\<close> holds the pieces of the chunk being
  built.\<close>

fun merge_splits :: "nat \<Rightarrow> nat \<Rightarrow> piece list \<Rightarrow> piece list \<Rightarrow> piece list" where
  "merge_splits chunk_size chunk_overlap cur [] = (if cur = [] then [] else [joined cur])"
| "merge_splits chunk_size chunk_overlap cur (d # ds) =
     (if total cur + length (snd d) > chunk_size \<and> cur \<noteq> []
      then joined cur # merge_splits chunk_size chunk_overlap (carry_over chunk_size chunk_overlap (length (snd d)) cur @ [d]) ds
      else merge_splits chunk_size chunk_overlap (cur @ [d]) ds)"

text \<open>
  Modelled from the spec: one level of the recursive strategy. The pieces in order:
  those shorter than \<open>chunk_size\<close> are gathered in \<open>good\<close> and merged;
  a longer one closes the gathered ones and is cut by \<open>finer\<close>.
\<close>

fun gather :: "nat \<Rightarrow> nat \<Rightarrow> (piece \<Rightarrow> piece list) \<Rightarrow> piece list \<Rightarrow> piece list \<Rightarrow> piece list" where
  "gather chunk_size chunk_overlap finer good [] = merge_splits chunk_size chunk_overlap [] good"
| "gather chunk_size chunk_overlap finer good (s # ss) =
     (if length (snd s) < chunk_size then gather chunk_size chunk_overlap finer (good @ [s]) ss
      else merge_splits chunk_size chunk_overlap [] good @ finer s @ gather chunk_size chunk_overlap finer [] ss)"

text \<open>
  Modelled from the spec: the recursive strategy over the kinds of boundary, coarsest
  first. A separator that
  does not occur in the text is passed over; the empty separator (any character
  boundary) is the last resort, and with no separator left a text stays whole.
\<close>

function split_text :: "nat \<Rightarrow> nat \<Rightarrow> string list \<Rightarrow> piece \<Rightarrow> piece list" where
  "split_text chunk_size chunk_overlap [] (off, text) = (if text = [] then [] else [(off, text)])"
| "split_text chunk_size chunk_overlap (sep # seps) (off, text) =
     (if sep \<noteq> [] \<and> \<not> occurs sep text then split_text chunk_size chunk_overlap seps (off, text)
      else gather chunk_size chunk_overlap
             (\<lambda>p. split_text chunk_size chunk_overlap (if sep = [] then [] else seps) p)
             [] (located off (pieces sep text)))"
  by pat_completeness auto
termination
  by (relation "measure (\<lambda>(chunk_size, chunk_overlap, seps, p). length seps)") auto

text \<open>Modelled from the spec: "paragraph boundaries, then sentence boundaries, then
  arbitrary character boundaries".\<close>

definition boundaries :: "string list" where
  "boundaries = [[CHR 0x0A, CHR 0x0A], ''. '', []]"

text \<open>Modelled from the spec: the Chunk of a document made from a piece of its text, with
  the source inherited and the offset recorded as \<open>start_index\<close>.\<close>

definition chunk_of :: "document \<Rightarrow> piece \<Rightarrow> document" where
  "chunk_of d p = \<lparr>page_content = snd p, source = source d, start_index = Some (int (fst p))\<rparr>"

text \<open>Modelled from the spec: the Splitter, "given a list of Documents and two integers
  \<open>chunk_size\<close> and \<open>chunk_overlap\<close>, produce a list of Chunks", the chunks in the
  order of their documents and offsets.\<close>

definition recursive_split_documents :: "nat \<Rightarrow> nat \<Rightarrow> document list \<Rightarrow> document list" where
  "recursive_split_documents chunk_size chunk_overlap docs =
     concat (map (\<lambda>d. map (chunk_of d)
                        (split_text chunk_size chunk_overlap boundaries (0, page_content d))) docs)"

text \<open>Pieces laid end to end from offset \<open>a\<close> to offset \<open>b\<close>.\<close>

fun tiles :: "nat \<Rightarrow> piece list \<Rightarrow> nat \<Rightarrow> bool" where
  "tiles a [] b = (a = b)"
| "tiles a (p # ps) b = (fst p = a \<and> tiles (a + length (snd p)) ps b)"

text \<open>
  Chunks that cover a document from offset \<open>a\<close> to offset \<open>b\<close>: the first starts at
  \<open>a\<close>, the last ends at \<open>b\<close>, and each next one starts inside or right at the end of
  the one before it, at most \<open>chunk_overlap\<close> characters before that end.
\<close>

fun covers :: "nat \<Rightarrow> nat \<Rightarrow> piece list \<Rightarrow> nat \<Rightarrow> bool" where
  "covers chunk_overlap a [] b = (a = b)"
| "covers chunk_overlap a [c] b = (fst c = a \<and> a + length (snd c) = b)"
| "covers chunk_overlap a (c # d # cs) b =
     (fst c = a \<and> fst d \<le> a + length (snd c) \<and> a + length (snd c) \<le> fst d + chunk_overlap
      \<and> covers chunk_overlap (fst d) (d # cs) b)"

subsection \<open>A concrete environment\<close>

text \<open>
  Modelled from the spec: the ranking of the index service, which is not code of the
  repository. \<open>query(vector, top_k, filter)\<close> "returns up to \<open>top_k\<close> nearest
  IndexRecords by the index's configured metric"; \<open>score\<close> stands for the embedding
  and the metric.
\<close>

definition nearest_by ::
    "(string \<Rightarrow> document \<Rightarrow> real) \<Rightarrow> document list \<Rightarrow> string \<Rightarrow> int \<Rightarrow> hit list" where
  "nearest_by score stored query k =
     take (nat k) (sorted_reverse (map (\<lambda>d. (d, score query d)) stored))"

definition doc :: "string \<Rightarrow> string \<Rightarrow> document" where
  "doc text path = \<lparr>page_content = text, source = path, start_index = None\<rparr>"

text \<open>A toy relevance: the same text scores 1, a text with the same first letter 3/4,
  any other 1/4.\<close>

definition example_score :: "string \<Rightarrow> document \<Rightarrow> real" where
  "example_score query d =
     (if page_content d = query then 1
      else if take 1 (page_content d) = take 1 query then 3 / 4
      else 1 / 4)"

text \<open>Two text files: one that is UTF-8, and one in Latin-1 whose bytes are not UTF-8;
  no other file exists.\<close>

definition example_read_file :: "string \<Rightarrow> encoding \<Rightarrow> error + string" where
  "example_read_file path enc =
     (if path = ''notes.txt'' then Inr ''alpha''
      else if path = ''legacy.txt'' then
        (case enc of Utf8 \<Rightarrow> Inl UnicodeDecodeError | Latin1 \<Rightarrow> Inr ''beta'')
      else Inl (LoaderError ''no such file''))"

text \<open>The texts of the library's exceptions.\<close>

definition example_library_text :: "error \<Rightarrow> string" where
  "example_library_text e =
     (case e of
        ServiceError Timeout \<Rightarrow> ''request timed out''
      | ServiceError RateLimited \<Rightarrow> ''rate limit exceeded''
      | ServiceError Unauthorized \<Rightarrow> ''invalid api key''
      | UnicodeDecodeError \<Rightarrow> ''invalid start byte''
      | _ \<Rightarrow> ''service error'')"

definition example_env :: env where
  "example_env =
     \<lparr>read_file = example_read_file,
      pdf_loader = (\<lambda>path. if path = ''paper.pdf'' then Inr [doc ''gamma'' path]
                           else Inl (LoaderError ''no such file'')),
      markdown_loader = (\<lambda>path. Inr [doc ''delta'' path]),
      split_documents = recursive_split_documents,
      nearest = nearest_by example_score,
      library_text = example_library_text\<rparr>"

definition example_cfg :: config where
  "example_cfg = \<lparr>PINECONE_API_KEY = Some ''pc-key'', PINECONE_INDEX_NAME = ''rag-ai-agent''\<rparr>"

text \<open>A world whose index holds two records, and one with no index at all.\<close>

definition example_world :: world where
  "example_world =
     \<lparr>remote = [(''rag-ai-agent'',
                 \<lparr>dimension = 1536, records = [doc ''apple'' ''old.txt'', doc ''alpha'' ''old.txt'']\<rparr>)],
      vector_db = None, faults = [], next_obj = 0, out = []\<rparr>"

definition empty_world :: world where
  "empty_world = \<lparr>remote = [], vector_db = None, faults = [], next_obj = 0, out = []\<rparr>"

text \<open>A document of three paragraphs of 260 characters each.\<close>

definition three_paragraphs :: string where
  "three_paragraphs =
     replicate 260 CHR ''a'' @ [CHR 0x0A, CHR 0x0A] @ replicate 260 CHR ''b''
     @ [CHR 0x0A, CHR 0x0A] @ replicate 260 CHR ''c''"

subsection \<open>Evaluating the module on the concrete environment\<close>

lemma total_simps [simp]:
  "total [] = 0"
  "total (p # ps) = length (snd p) + total ps"
  "total (xs @ ys) = total xs + total ys"
  by (simp_all add: total_def)

lemma joined_length [simp]: "length (snd (joined cur)) = total cur"
  by (simp add: joined_def total_def)

lemmas example_simps =
  example_world_def empty_world_def example_cfg_def example_env_def example_score_def
  example_read_file_def example_library_text_def text_loader_def str_of_def
  missing_spec_def doc_def nearest_by_def
  get_vector_db_def query_data_def similarity_search_with_relevance_scores_def
  save_to_pinecone_def from_documents_def from_existing_index_def new_handle_def
  create_index_def delete_index_def list_indexes_def network_call_def truthy_def
  bind_io_def pure_io_def raise_io_def print_io_def set_vector_db_def
  sorted_reverse_def slice_to_def embedding_dimension_def

lemmas splitter_simps =
  recursive_split_documents_def chunk_of_def boundaries_def pieces_def joined_def doc_def

subsection \<open>Injected failures surface and are not retried\<close>

lemma clean_Nil [simp]: "clean []"
  by (simp add: clean_def)

lemma clean_append [simp]: "clean (xs @ ys) = (clean xs \<and> clean ys)"
  by (simp add: clean_def)

lemma clean_Cons [simp]: "clean (x # xs) = (x = None \<and> clean xs)"
  by (simp add: clean_def)

lemma surfaces_same: "surfaces fs fs r"
  unfolding surfaces_def by (rule exI[of _ "[]"]) simp

lemma surfaces_trans:
  assumes "surfaces a b None" and "surfaces b c r"
  shows "surfaces a c r"
proof -
  from assms(1) obtain u1 where u1: "a = u1 @ b" "clean u1"
    unfolding surfaces_def by auto
  from assms(2) obtain u2 where u2: "b = u2 @ c"
    and c2: "clean u2 \<or> (\<exists>pre f. u2 = pre @ [Some f] \<and> clean pre \<and> r = Some (ServiceError f))"
    unfolding surfaces_def by auto
  from c2 have "clean (u1 @ u2) \<or>
      (\<exists>pre f. u1 @ u2 = pre @ [Some f] \<and> clean pre \<and> r = Some (ServiceError f))"
  proof
    assume "clean u2"
    with u1 show ?thesis by simp
  next
    assume "\<exists>pre f. u2 = pre @ [Some f] \<and> clean pre \<and> r = Some (ServiceError f)"
    then obtain pre f where "u2 = pre @ [Some f]" "clean pre" "r = Some (ServiceError f)"
      by auto
    with u1 have "u1 @ u2 = (u1 @ pre) @ [Some f] \<and> clean (u1 @ pre) \<and> r = Some (ServiceError f)"
      by simp
    then show ?thesis by blast
  qed
  moreover have "a = (u1 @ u2) @ c" using u1 u2 by simp
  ultimately show ?thesis unfolding surfaces_def by blast
qed

lemma propagating_network_call: "propagating network_call"
  unfolding propagating_def surfaces_def
proof
  fix w
  show "\<exists>used. faults w = used @ faults (snd (network_call w)) \<and>
        (clean used \<or>
         (\<exists>pre f. used = pre @ [Some f] \<and> clean pre \<and>
            raised_of (fst (network_call w)) = Some (ServiceError f)))"
  proof (cases "faults w")
    case Nil
    then show ?thesis by (intro exI[of _ "[]"]) (simp add: network_call_def)
  next
    case (Cons x fs)
    then show ?thesis
      by (intro exI[of _ "[x]"]) (cases x; simp add: network_call_def raised_of_def)
  qed
qed

lemma propagating_frame: "(\<And>w. faults (snd (m w)) = faults w) \<Longrightarrow> propagating m"
  unfolding propagating_def by (simp add: surfaces_same)

lemma propagating_bind:
  assumes m: "propagating m" and f: "\<And>x. propagating (f x)"
  shows "propagating (bind_io m f)"
  unfolding propagating_def
proof
  fix w
  obtain r w1 where run: "m w = (r, w1)" by (cases "m w")
  from m have "surfaces (faults w) (faults (snd (m w))) (raised_of (fst (m w)))"
    unfolding propagating_def by blast
  then have s1: "surfaces (faults w) (faults w1) (raised_of r)"
    by (simp add: run)
  show "surfaces (faults w) (faults (snd (bind_io m f w))) (raised_of (fst (bind_io m f w)))"
  proof (cases r)
    case (Inl e)
    then have "bind_io m f w = (Inl e, w1)" by (simp add: bind_io_def run)
    with s1 Inl show ?thesis by (simp add: raised_of_def)
  next
    case (Inr x)
    then have b: "bind_io m f w = f x w1" by (simp add: bind_io_def run)
    from s1 Inr have "surfaces (faults w) (faults w1) None" by (simp add: raised_of_def)
    moreover from f have "surfaces (faults w1) (faults (snd (f x w1))) (raised_of (fst (f x w1)))"
      unfolding propagating_def by blast
    ultimately show ?thesis unfolding b by (rule surfaces_trans)
  qed
qed

lemma propagating_pure: "propagating (pure_io x)"
  by (rule propagating_frame) (simp add: pure_io_def)

lemma propagating_raise: "propagating (raise_io x)"
  by (rule propagating_frame) (simp add: raise_io_def)

lemma propagating_print: "propagating (print_io x)"
  by (rule propagating_frame) (simp add: print_io_def)

lemma propagating_set_vector_db: "propagating (set_vector_db x)"
  by (rule propagating_frame) (simp add: set_vector_db_def)

lemma propagating_list_indexes: "propagating list_indexes"
  unfolding list_indexes_def
  by (intro propagating_bind propagating_network_call propagating_frame) simp

lemma propagating_delete_index: "propagating (delete_index n)"
  unfolding delete_index_def
  by (intro propagating_bind propagating_network_call propagating_frame) simp

lemma propagating_create_index: "propagating (create_index n d spec)"
  unfolding create_index_def
  by (cases spec)
     (simp_all add: propagating_raise,
      intro propagating_bind propagating_network_call propagating_frame, simp)

lemma propagating_from_documents: "propagating (from_documents cs n)"
  unfolding from_documents_def
  by (intro propagating_bind propagating_network_call propagating_frame)
     (simp add: new_handle_def split: option.splits)

lemma propagating_if: "propagating a \<Longrightarrow> propagating b \<Longrightarrow> propagating (if c then a else b)"
  by simp

lemma propagating_save_to_pinecone: "propagating (save_to_pinecone cfg chunks overwrite)"
  unfolding save_to_pinecone_def
  by (intro propagating_if propagating_bind propagating_raise propagating_pure
        propagating_list_indexes propagating_delete_index propagating_create_index
        propagating_from_documents propagating_print propagating_set_vector_db)

lemma load_loop_faults: "faults (snd (load_loop ev ps docs w)) = faults w"
proof (induction ps arbitrary: docs w)
  case Nil
  then show ?case by (simp add: pure_io_def)
next
  case (Cons p ps)
  show ?case
    by (simp add: Cons.IH raise_io_def bind_io_def print_io_def
          split: sum.splits error.splits)
qed

lemma propagating_load_documents: "propagating (load_documents ev ps)"
  unfolding load_documents_def
  by (intro propagating_bind propagating_print propagating_pure propagating_frame)
     (rule load_loop_faults)

lemma propagating_text_spliter: "propagating (text_spliter ev docs)"
  unfolding text_spliter_def Let_def
  by (intro propagating_bind propagating_print propagating_pure)

lemma propagating_pipeline:
  "propagating (bind_io
             (case files_paths of
                Some (p # ps) \<Rightarrow> load_documents ev (p # ps)
              | _ \<Rightarrow> raise_io (ValueError FilesPathRequired)) (\<lambda>documents.
           bind_io (text_spliter ev documents) (\<lambda>chunks.
             save_to_pinecone cfg chunks overwrite)))"
  by (intro propagating_bind propagating_text_spliter propagating_save_to_pinecone)
     (simp add: propagating_load_documents propagating_raise split: option.splits list.splits)

lemma process_files_returns: "\<exists>reply. fst (process_files ev cfg files_paths overwrite w) = Inr reply"
proof -
  let ?m = "bind_io
             (case files_paths of
                Some (p # ps) \<Rightarrow> load_documents ev (p # ps)
              | _ \<Rightarrow> raise_io (ValueError FilesPathRequired)) (\<lambda>documents.
           bind_io (text_spliter ev documents) (\<lambda>chunks.
             save_to_pinecone cfg chunks overwrite))"
  obtain r w' where run: "?m w = (r, w')" by (cases "?m w")
  show ?thesis
    by (cases r) (auto simp: process_files_def run)
qed

lemma process_files_reported:
  "reported ev (faults w) (faults (snd (process_files ev cfg files_paths overwrite w)))
     (fst (process_files ev cfg files_paths overwrite w))"
proof -
  let ?m = "bind_io
             (case files_paths of
                Some (p # ps) \<Rightarrow> load_documents ev (p # ps)
              | _ \<Rightarrow> raise_io (ValueError FilesPathRequired)) (\<lambda>documents.
           bind_io (text_spliter ev documents) (\<lambda>chunks.
             save_to_pinecone cfg chunks overwrite))"
  obtain r w' where run: "?m w = (r, w')" by (cases "?m w")
  have "surfaces (faults w) (faults (snd (?m w))) (raised_of (fst (?m w)))"
    using propagating_pipeline[where files_paths=files_paths and ev=ev and cfg=cfg and overwrite=overwrite]
    unfolding propagating_def by blast
  then have "surfaces (faults w) (faults w') (raised_of r)" by (simp add: run)
  then obtain used where u: "faults w = used @ faults w'"
    and c: "clean used \<or>
      (\<exists>pre f. used = pre @ [Some f] \<and> clean pre \<and> raised_of r = Some (ServiceError f))"
    unfolding surfaces_def by blast
  show ?thesis
  proof (cases r)
    case (Inl e)
    then have pf: "process_files ev cfg files_paths overwrite w =
        (Inr (False, str_of ev e), w'\<lparr>out := out w' @ [ErrorProcessing (str_of ev e)]\<rparr>)"
      by (simp add: process_files_def run)
    from c Inl have "clean used \<or>
      (\<exists>pre f. used = pre @ [Some f] \<and> clean pre
         \<and> Inr (False, str_of ev e) = (Inr (False, str_of ev (ServiceError f)) :: error + bool \<times> string))"
      by (auto simp: raised_of_def)
    with u show ?thesis unfolding reported_def pf by auto
  next
    case (Inr h)
    then have pf: "process_files ev cfg files_paths overwrite w =
        (Inr (True, ''Files processed and saved to vector database successfully.''), w')"
      by (simp add: process_files_def run)
    from c Inr have "clean used" by (auto simp: raised_of_def)
    with u show ?thesis unfolding reported_def pf by auto
  qed
qed

lemma save_to_pinecone_first_call:
  assumes "truthy (PINECONE_API_KEY cfg)" and "faults w = Some f # rest"
  shows "fst (save_to_pinecone cfg chunks overwrite w) = Inl (ServiceError f)
         \<and> faults (snd (save_to_pinecone cfg chunks overwrite w)) = rest"
  using assms
  by (simp add: save_to_pinecone_def bind_io_def list_indexes_def network_call_def pure_io_def)

text \<open>
  C3, as the code has it. A failure raised by the embedding or the index service during
  an ingestion call ends the call at that point and is not retried: of the tape of
  injected failures, a run of \<open>save_to_pinecone\<close> or of \<open>process_files\<close> consumes
  either entries that all go through, or entries that go through followed by one
  failure, and no network call follows it. \<open>save_to_pinecone\<close> propagates the failure:
  it is the exception raised. \<open>process_files\<close> does not propagate it: it never raises,
  and returns the pair \<open>(False, str(e))\<close> with the text of the failure. With the API
  key set, a failure of the first call is raised by \<open>save_to_pinecone\<close> whatever
  \<open>overwrite\<close> is.
\<close>

theorem ingestion_service_errors_end_the_call:
  "surfaces (faults w) (faults (snd (save_to_pinecone cfg chunks overwrite w)))
     (raised_of (fst (save_to_pinecone cfg chunks overwrite w)))
   \<and> (\<exists>reply. fst (process_files ev cfg files_paths overwrite w) = Inr reply)
   \<and> reported ev (faults w) (faults (snd (process_files ev cfg files_paths overwrite w)))
     (fst (process_files ev cfg files_paths overwrite w))
   \<and> (truthy (PINECONE_API_KEY cfg) \<and> faults w = Some f # rest \<longrightarrow>
        fst (save_to_pinecone cfg chunks overwrite w) = Inl (ServiceError f)
        \<and> faults (snd (save_to_pinecone cfg chunks overwrite w)) = rest)"
proof (intro conjI impI)
  show "surfaces (faults w) (faults (snd (save_to_pinecone cfg chunks overwrite w)))
     (raised_of (fst (save_to_pinecone cfg chunks overwrite w)))"
    using propagating_save_to_pinecone[of cfg chunks overwrite] unfolding propagating_def by blast
  show "\<exists>reply. fst (process_files ev cfg files_paths overwrite w) = Inr reply"
    by (rule process_files_returns)
  show "reported ev (faults w) (faults (snd (process_files ev cfg files_paths overwrite w)))
     (fst (process_files ev cfg files_paths overwrite w))"
    by (rule process_files_reported)
next
  assume a: "truthy (PINECONE_API_KEY cfg) \<and> faults w = Some f # rest"
  then show "fst (save_to_pinecone cfg chunks overwrite w) = Inl (ServiceError f)"
    using save_to_pinecone_first_call[of cfg w f rest chunks overwrite] by simp
  from a show "faults (snd (save_to_pinecone cfg chunks overwrite w)) = rest"
    using save_to_pinecone_first_call[of cfg w f rest chunks overwrite] by simp
qed

lemma process_files_rate_limited:
  "process_files example_env example_cfg (Some [''notes.txt'']) False
        (example_world\<lparr>faults := [None, None, Some RateLimited, None]\<rparr>) =
       (Inr (False, ''rate limit exceeded''),
        example_world\<lparr>faults := [None],
           out := [LoadedDocuments 1 1, SplitDocuments 1 1,
                   ErrorProcessing ''rate limit exceeded'']\<rparr>)"
  by (simp add: process_files_def load_documents_def text_spliter_def endswith_def
        example_simps splitter_simps)

theorem ingestion_service_errors_end_the_call_witness:
  "truthy (PINECONE_API_KEY example_cfg)
   \<and> faults (example_world\<lparr>faults := [Some Timeout, None]\<rparr>) = Some Timeout # [None]
   \<and> fst (save_to_pinecone example_cfg [doc ''beta'' ''new.txt''] False
            (example_world\<lparr>faults := [Some Timeout, None]\<rparr>)) = Inl (ServiceError Timeout)
   \<and> faults (snd (save_to_pinecone example_cfg [doc ''beta'' ''new.txt''] False
            (example_world\<lparr>faults := [Some Timeout, None]\<rparr>))) = [None]
   \<and> process_files example_env example_cfg (Some [''notes.txt'']) False
        (example_world\<lparr>faults := [None, None, Some RateLimited, None]\<rparr>) =
       (Inr (False, ''rate limit exceeded''),
        example_world\<lparr>faults := [None],
           out := [LoadedDocuments 1 1, SplitDocuments 1 1,
                   ErrorProcessing ''rate limit exceeded'']\<rparr>)"
proof -
  have key: "truthy (PINECONE_API_KEY example_cfg)"
    by (simp add: example_cfg_def truthy_def)
  have tape: "faults (example_world\<lparr>faults := [Some Timeout, None]\<rparr>) = Some Timeout # [None]"
    by simp
  show ?thesis
    using ingestion_service_errors_end_the_call
            [of "example_world\<lparr>faults := [Some Timeout, None]\<rparr>" example_cfg
                "[doc ''beta'' ''new.txt'']" False example_env "Some [''notes.txt'']"
                Timeout "[None]"]
          key tape process_files_rate_limited
    by simp
qed

text \<open>
  The claim C3 as stated fails for \<open>process_files\<close>: a rate-limit failure of the index
  service is not propagated to the caller. The call returns normally, with the pair
  \<open>(False, text)\<close> it also returns for a configuration error such as an unsupported
  file type; nothing in the result says that the failure can be retried.
\<close>

theorem process_files_swallows_service_error_counterexample:
  "fst (process_files example_env example_cfg (Some [''notes.txt'']) False
          (example_world\<lparr>faults := [None, None, Some RateLimited, None]\<rparr>)) =
     Inr (False, ''rate limit exceeded'')
   \<and> fst (process_files example_env example_cfg (Some [''sheet.xlsx'']) False example_world) =
     Inr (False, ''Unsupported file type: sheet.xlsx'')"
  by (simp add: process_files_rate_limited)
     (simp add: process_files_def load_documents_def endswith_def example_simps str_of_def)

subsection \<open>The query engine\<close>

lemma sorted_reverse_sorted: "sorted_wrt (\<lambda>a b. snd b \<le> snd a) (sorted_reverse rs)"
proof -
  have "sorted (map snd (sort_key snd (rev rs)))" by simp
  then have "sorted_wrt (\<lambda>a b. snd a \<le> snd b) (sort_key snd (rev rs))"
    by (simp add: sorted_map)
  then show ?thesis
    unfolding sorted_reverse_def by (simp add: sorted_wrt_rev)
qed

lemma sorted_reverse_mset: "mset (sorted_reverse rs) = mset rs"
  by (simp add: sorted_reverse_def)

lemma query_data_answer:
  assumes "get_vector_db cfg w = (Inr (Some h), w1)"
      and "similarity_search_with_relevance_scores ev h q k w1 = (Inr results, w2)"
  shows "fst (query_data ev cfg q t k w) =
           Inr (if results = [] \<or> snd (hd results) < t then []
                else slice_to k (sorted_reverse results))"
  using assms
  by (cases results) (simp_all add: query_data_def bind_io_def pure_io_def print_io_def)

text \<open>
  C1. Whenever a handle is available and the index service answers \<open>results\<close>,
  \<open>query_data\<close> returns successfully: the empty list if \<open>results\<close> is empty or its
  first hit scores below the threshold, and otherwise all of \<open>results\<close> sorted by
  descending score and cut by the slice \<open>[:k]\<close>, which for \<open>k \<ge> 0\<close> keeps the first
  \<open>k\<close>.
\<close>

theorem query_data_threshold_and_ranking:
  assumes "get_vector_db cfg w = (Inr (Some h), w1)"
      and "similarity_search_with_relevance_scores ev h q k w1 = (Inr results, w2)"
  shows "fst (query_data ev cfg q t k w) =
           Inr (if results = [] \<or> snd (hd results) < t then []
                else slice_to k (sorted_reverse results))
         \<and> sorted_wrt (\<lambda>a b. snd b \<le> snd a) (sorted_reverse results)
         \<and> mset (sorted_reverse results) = mset results
         \<and> (0 \<le> k \<longrightarrow>
              slice_to k (sorted_reverse results) = take (nat k) (sorted_reverse results))"
  using query_data_answer[OF assms, of t]
  by (simp add: slice_to_def sorted_reverse_sorted sorted_reverse_mset)

theorem query_data_threshold_and_ranking_witness:
  "fst (query_data example_env example_cfg ''alpha'' (7 / 10) 3 example_world) =
     Inr [(doc ''alpha'' ''old.txt'', 1), (doc ''apple'' ''old.txt'', 3 / 4)]
   \<and> fst (query_data example_env example_cfg ''omega'' (7 / 10) 3 example_world) = Inr []"
proof -
  let ?h = "\<lparr>obj_id = 0, bound_index = ''rag-ai-agent''\<rparr>"
  let ?w1 = "example_world\<lparr>vector_db := Some ?h, next_obj := 1,
                out := [LoadedExistingIndex ''rag-ai-agent'']\<rparr>"
  have g: "get_vector_db example_cfg example_world = (Inr (Some ?h), ?w1)"
    by (simp add: example_simps)
  have s1: "similarity_search_with_relevance_scores example_env ?h ''alpha'' 3 ?w1 =
      (Inr [(doc ''alpha'' ''old.txt'', 1), (doc ''apple'' ''old.txt'', 3 / 4)], ?w1)"
    by (simp add: example_simps)
  have s2: "similarity_search_with_relevance_scores example_env ?h ''omega'' 3 ?w1 =
      (Inr [(doc ''apple'' ''old.txt'', 1 / 4), (doc ''alpha'' ''old.txt'', 1 / 4)], ?w1)"
    by (simp add: example_simps)
  show ?thesis
    using query_data_threshold_and_ranking[OF g s1, of "7 / 10"]
          query_data_threshold_and_ranking[OF g s2, of "7 / 10"]
    by (simp add: example_simps)
qed

subsection \<open>The cached handle\<close>

lemma network_call_goes_through:
  "goes_through w \<Longrightarrow> network_call w = (Inr (), w\<lparr>faults := tl (faults w)\<rparr>)"
  by (auto simp: goes_through_def network_call_def split: list.splits option.splits)

lemma get_vector_db_remote: "remote (snd (get_vector_db cfg w)) = remote w"
  by (simp add: get_vector_db_def bind_io_def list_indexes_def network_call_def
        from_existing_index_def new_handle_def set_vector_db_def print_io_def
        split: list.splits option.splits)

lemma get_vector_db_cached: "vector_db w = Some h \<Longrightarrow> get_vector_db cfg w = (Inr (Some h), w)"
  by (simp add: get_vector_db_def)

lemma get_vector_db_caches:
  "fst (get_vector_db cfg w) = Inr (Some h) \<Longrightarrow> vector_db (snd (get_vector_db cfg w)) = Some h"
  by (simp add: get_vector_db_def bind_io_def list_indexes_def network_call_def
        from_existing_index_def new_handle_def set_vector_db_def print_io_def
        split: list.splits option.splits if_splits)

lemma get_vector_db_no_key:
  assumes "vector_db w = None" and "\<not> truthy (PINECONE_API_KEY cfg)"
  shows "get_vector_db cfg w = (Inr None, w\<lparr>out := out w @ [ApiKeyNotFound]\<rparr>)"
  using assms by (simp add: get_vector_db_def bind_io_def print_io_def)

lemma get_vector_db_no_index:
  assumes "vector_db w = None" and "truthy (PINECONE_API_KEY cfg)" and "goes_through w"
      and "PINECONE_INDEX_NAME cfg \<notin> set (map fst (remote w))"
  shows "get_vector_db cfg w =
           (Inr None, w\<lparr>faults := tl (faults w),
                         out := out w @ [IndexNotFound (PINECONE_INDEX_NAME cfg)]\<rparr>)"
  using assms
  by (simp add: get_vector_db_def bind_io_def list_indexes_def network_call_goes_through
        print_io_def)

lemma close_vector_db_resets:
  "vector_db (snd (close_vector_db w)) = None \<and> remote (snd (close_vector_db w)) = remote w"
  by (simp add: close_vector_db_def bind_io_def set_vector_db_def print_io_def)

lemma name_deleted: "name \<notin> fst ` {x \<in> set xs. fst x \<noteq> name}"
  by auto

lemma overwrite_resets_handle:
  assumes "truthy (PINECONE_API_KEY cfg)"
      and "PINECONE_INDEX_NAME cfg \<in> set (map fst (remote w))"
      and "clean (take 2 (faults w))"
  shows "vector_db (snd (save_to_pinecone cfg chunks True w)) = None"
proof -
  have g1: "goes_through w"
    using assms(3) by (cases "faults w") (auto simp: goes_through_def)
  let ?w1 = "w\<lparr>faults := tl (faults w)\<rparr>"
  have g2: "goes_through ?w1"
    using assms(3) by (cases "faults w"; cases "tl (faults w)") (auto simp: goes_through_def)
  let ?n = "PINECONE_INDEX_NAME cfg"
  let ?w3 = "?w1\<lparr>faults := tl (faults ?w1),
                  remote := filter (\<lambda>p. fst p \<noteq> ?n) (remote w),
                  out := out w @ [DeletedIndex ?n], vector_db := None\<rparr>"
  let ?rest = "\<lambda>_::unit. bind_io list_indexes (\<lambda>names.
        bind_io
          (if ?n \<notin> set names then
             bind_io (create_index ?n 1536 None) (\<lambda>_. print_io (CreatedIndex ?n))
           else pure_io ()) (\<lambda>_.
        bind_io (from_documents chunks ?n) (\<lambda>h.
        bind_io (set_vector_db (Some h)) (\<lambda>_.
        bind_io (print_io (AddedChunks (length chunks) ?n)) (\<lambda>_.
          pure_io h)))))"
  have step: "save_to_pinecone cfg chunks True w = ?rest () ?w3"
    using assms(1,2) g1 g2
    by (simp add: save_to_pinecone_def bind_io_def list_indexes_def delete_index_def
          network_call_goes_through print_io_def set_vector_db_def)
  have "vector_db (snd (?rest () ?w3)) = None"
    by (simp add: bind_io_def list_indexes_def create_index_def raise_io_def
          network_call_def name_deleted split: list.splits option.splits)
  then show ?thesis by (simp only: step)
qed

lemma bind_io_returns:
  assumes "fst (bind_io m f w) = Inr y"
  obtains x w1 where "m w = (Inr x, w1)" and "bind_io m f w = f x w1"
proof -
  obtain r w1 where run: "m w = (r, w1)" by (cases "m w")
  show ?thesis
  proof (cases r)
    case (Inl e)
    with run assms show ?thesis by (simp add: bind_io_def)
  next
    case (Inr x)
    with run have "m w = (Inr x, w1)" and "bind_io m f w = f x w1"
      by (simp_all add: bind_io_def)
    then show ?thesis by (rule that)
  qed
qed

lemma list_indexes_next_obj: "next_obj (snd (list_indexes w)) = next_obj w"
  by (simp add: list_indexes_def bind_io_def network_call_def split: list.splits option.splits)

lemma deleting_next_obj:
  "next_obj (snd ((if overwrite then
             bind_io list_indexes (\<lambda>names.
               if n \<in> set names then
                 bind_io (delete_index n) (\<lambda>_.
                 bind_io (print_io (DeletedIndex n)) (\<lambda>_.
                   set_vector_db None))
               else pure_io ())
           else pure_io ()) w)) = next_obj w"
  by (simp add: list_indexes_def delete_index_def bind_io_def network_call_def pure_io_def
        print_io_def set_vector_db_def split: list.splits option.splits)

lemma creating_next_obj:
  "next_obj (snd ((if n \<notin> set names then
             bind_io (create_index n 1536 None) (\<lambda>_. print_io (CreatedIndex n))
           else pure_io ()) w)) = next_obj w"
  by (simp add: create_index_def bind_io_def raise_io_def pure_io_def)

lemma storing_new_object:
  assumes "fst (bind_io (from_documents chunks n) (\<lambda>h.
        bind_io (set_vector_db (Some h)) (\<lambda>_.
        bind_io (print_io (AddedChunks (length chunks) n)) (\<lambda>_.
          pure_io h))) w) = Inr h'"
  shows "vector_db (snd (bind_io (from_documents chunks n) (\<lambda>h.
        bind_io (set_vector_db (Some h)) (\<lambda>_.
        bind_io (print_io (AddedChunks (length chunks) n)) (\<lambda>_.
          pure_io h))) w)) = Some h' \<and> obj_id h' = next_obj w"
  using assms
  by (simp add: from_documents_def bind_io_def network_call_def new_handle_def
        set_vector_db_def print_io_def pure_io_def
        split: list.splits option.splits if_splits)
     auto

lemma save_to_pinecone_new_object:
  assumes "fst (save_to_pinecone cfg chunks overwrite w) = Inr h'"
  shows "vector_db (snd (save_to_pinecone cfg chunks overwrite w)) = Some h'
         \<and> obj_id h' = next_obj w"
proof -
  let ?n = "PINECONE_INDEX_NAME cfg"
  let ?deleting = "if overwrite then
             bind_io list_indexes (\<lambda>names.
               if ?n \<in> set names then
                 bind_io (delete_index ?n) (\<lambda>_.
                 bind_io (print_io (DeletedIndex ?n)) (\<lambda>_.
                   set_vector_db None))
               else pure_io ())
           else pure_io ()"
  let ?creating = "\<lambda>names. if ?n \<notin> set names then
             bind_io (create_index ?n 1536 None) (\<lambda>_. print_io (CreatedIndex ?n))
           else pure_io ()"
  let ?storing = "bind_io (from_documents chunks ?n) (\<lambda>h.
        bind_io (set_vector_db (Some h)) (\<lambda>_.
        bind_io (print_io (AddedChunks (length chunks) ?n)) (\<lambda>_.
          pure_io h)))"
  let ?after_listing = "\<lambda>names. bind_io (?creating names) (\<lambda>_. ?storing)"
  let ?after_deleting = "\<lambda>_::unit. bind_io list_indexes ?after_listing"
  have key: "truthy (PINECONE_API_KEY cfg)"
    using assms by (cases "truthy (PINECONE_API_KEY cfg)") (simp_all add: save_to_pinecone_def raise_io_def)
  then have unfold: "save_to_pinecone cfg chunks overwrite w = bind_io ?deleting ?after_deleting w"
    by (simp add: save_to_pinecone_def)
  with assms have "fst (bind_io ?deleting ?after_deleting w) = Inr h'" by simp
  then obtain u w1 where d: "?deleting w = (Inr u, w1)"
    and r1: "bind_io ?deleting ?after_deleting w = ?after_deleting u w1"
    by (rule bind_io_returns)
  have n1: "next_obj w1 = next_obj w"
    using deleting_next_obj[of overwrite ?n w] d by simp
  from assms unfold r1 have "fst (bind_io list_indexes ?after_listing w1) = Inr h'" by simp
  then obtain names w2 where l: "list_indexes w1 = (Inr names, w2)"
    and r2: "bind_io list_indexes ?after_listing w1 = ?after_listing names w2"
    by (rule bind_io_returns)
  have n2: "next_obj w2 = next_obj w1"
    using list_indexes_next_obj[of w1] l by simp
  from assms unfold r1 r2 have "fst (bind_io (?creating names) (\<lambda>_. ?storing) w2) = Inr h'"
    by simp
  then obtain v w3 where c: "?creating names w2 = (Inr v, w3)"
    and r3: "bind_io (?creating names) (\<lambda>_. ?storing) w2 = ?storing w3"
    by (rule bind_io_returns)
  have n3: "next_obj w3 = next_obj w2"
    using creating_next_obj[of ?n names w2] c by simp
  from assms unfold r1 r2 r3 have "fst (?storing w3) = Inr h'" by simp
  then have "vector_db (snd (?storing w3)) = Some h' \<and> obj_id h' = next_obj w3"
    by (rule storing_new_object)
  with unfold r1 r2 r3 n1 n2 n3 show ?thesis by simp
qed

lemma query_data_keeps_handle:
  assumes "vector_db w = Some h"
  shows "vector_db (snd (query_data ev cfg q t k w)) = Some h"
  using assms
  by (simp add: query_data_def get_vector_db_def bind_io_def pure_io_def print_io_def
        similarity_search_with_relevance_scores_def network_call_def
        split: list.splits option.splits)

lemma load_loop_keeps_handle: "vector_db (snd (load_loop ev ps docs w)) = vector_db w"
proof (induction ps arbitrary: docs w)
  case Nil
  then show ?case by (simp add: pure_io_def)
next
  case (Cons p ps)
  show ?case
    by (simp add: Cons.IH raise_io_def bind_io_def print_io_def
          split: sum.splits error.splits)
qed

lemma load_documents_keeps_handle:
  "vector_db (snd (load_documents ev ps w)) = vector_db w"
proof -
  obtain r w1 where run: "load_loop ev ps [] w = (r, w1)"
    by (cases "load_loop ev ps [] w")
  then have "vector_db w1 = vector_db w"
    using load_loop_keeps_handle[of ev ps "[]" w] by simp
  then show ?thesis
    by (cases r) (simp_all add: load_documents_def bind_io_def print_io_def pure_io_def run)
qed

lemma text_spliter_keeps_handle:
  "vector_db (snd (text_spliter ev docs w)) = vector_db w"
  by (simp add: text_spliter_def Let_def bind_io_def print_io_def pure_io_def)

lemma perform_keeps_handle:
  assumes "vector_db w = Some h" and "\<not> assigns_handle c"
  shows "vector_db (perform ev cfg c w) = Some h"
proof (cases c)
  case Get_vector_db
  with assms(1) show ?thesis by (simp add: perform_def get_vector_db_cached)
next
  case (Query_data q t k)
  with assms(1) show ?thesis by (simp add: perform_def query_data_keeps_handle)
next
  case Close_vector_db
  with assms(2) show ?thesis by (simp add: assigns_handle_def)
next
  case (Load_documents ps)
  with assms(1) show ?thesis by (simp add: perform_def load_documents_keeps_handle)
next
  case (Text_spliter ds)
  with assms(1) show ?thesis by (simp add: perform_def text_spliter_keeps_handle)
next
  case (Save_to_pinecone chunks overwrite)
  with assms(2) show ?thesis by (simp add: assigns_handle_def)
next
  case (Process_files ps overwrite)
  with assms(2) show ?thesis by (simp add: assigns_handle_def)
qed

lemma run_keeps_handle:
  assumes "vector_db w = Some h" and "\<forall>c \<in> set calls. \<not> assigns_handle c"
  shows "vector_db (run ev cfg calls w) = Some h"
  using assms
proof (induction calls arbitrary: w)
  case Nil
  then show ?case by (simp add: run_def)
next
  case (Cons c calls)
  then have "vector_db (perform ev cfg c w) = Some h"
    by (simp add: perform_keeps_handle)
  then have "vector_db (run ev cfg calls (perform ev cfg c w)) = Some h"
    using Cons.prems(2) by (intro Cons.IH) simp_all
  then show ?case by (simp add: run_def)
qed


lemma example_run:
  "run example_env example_cfg [Query_data ''alpha'' (7 / 10) 3, Get_vector_db, Load_documents [''notes.txt'']]
     (snd (get_vector_db example_cfg example_world)) =
   example_world\<lparr>vector_db := Some \<lparr>obj_id = 0, bound_index = ''rag-ai-agent''\<rparr>, next_obj := 1,
     out := [LoadedExistingIndex ''rag-ai-agent'', LoadedDocuments 1 1]\<rparr>"
  by (simp add: run_def perform_def load_documents_def endswith_def example_simps)



subsection \<open>Querying without a handle\<close>

lemma query_data_no_handle:
  assumes "get_vector_db cfg w = (Inr None, w1)"
  shows "query_data ev cfg q t k w = (Inr [], w1\<lparr>out := out w1 @ [NoVectorDatabase]\<rparr>)"
  using assms by (simp add: query_data_def bind_io_def print_io_def pure_io_def)

lemma query_data_threshold_miss:
  assumes "get_vector_db cfg w = (Inr (Some h), w1)"
      and "similarity_search_with_relevance_scores ev h q k w1 = (Inr results, w2)"
      and "results = [] \<or> snd (hd results) < t"
  shows "query_data ev cfg q t k w = (Inr [], w2\<lparr>out := out w2 @ [UnableToFindMatching]\<rparr>)"
  using assms
  by (cases results) (simp_all add: query_data_def bind_io_def print_io_def pure_io_def)

text \<open>
  C2, as the code has it. Querying with no handle available is not a failure:
  \<open>query_data\<close> prints "No vector database available. Please create one first." and
  returns the empty list, the value a threshold miss returns after printing "Unable to
  find matching results."; only the printed line tells the two apart. No handle is
  available, with nothing cached, when the listing call goes through and the index is
  not among the names.
\<close>

theorem query_data_without_handle_returns_empty:
  "(get_vector_db cfg w = (Inr None, w1) \<longrightarrow>
      query_data ev cfg q t k w = (Inr [], w1\<lparr>out := out w1 @ [NoVectorDatabase]\<rparr>))
   \<and> (get_vector_db cfg w = (Inr (Some h), w1)
       \<and> similarity_search_with_relevance_scores ev h q k w1 = (Inr results, w2)
       \<and> (results = [] \<or> snd (hd results) < t) \<longrightarrow>
      query_data ev cfg q t k w = (Inr [], w2\<lparr>out := out w2 @ [UnableToFindMatching]\<rparr>))
   \<and> (vector_db w = None \<and> truthy (PINECONE_API_KEY cfg) \<and> goes_through w
       \<and> PINECONE_INDEX_NAME cfg \<notin> set (map fst (remote w)) \<longrightarrow>
      fst (query_data ev cfg q t k w) = Inr []
      \<and> out (snd (query_data ev cfg q t k w)) =
          out w @ [IndexNotFound (PINECONE_INDEX_NAME cfg), NoVectorDatabase]
      \<and> remote (snd (query_data ev cfg q t k w)) = remote w)"
proof (intro conjI impI)
  assume "get_vector_db cfg w = (Inr None, w1)"
  then show "query_data ev cfg q t k w = (Inr [], w1\<lparr>out := out w1 @ [NoVectorDatabase]\<rparr>)"
    by (rule query_data_no_handle)
next
  assume "get_vector_db cfg w = (Inr (Some h), w1)
       \<and> similarity_search_with_relevance_scores ev h q k w1 = (Inr results, w2)
       \<and> (results = [] \<or> snd (hd results) < t)"
  then show "query_data ev cfg q t k w = (Inr [], w2\<lparr>out := out w2 @ [UnableToFindMatching]\<rparr>)"
    using query_data_threshold_miss[of cfg w h w1 ev q k results w2 t] by simp
next
  assume a: "vector_db w = None \<and> truthy (PINECONE_API_KEY cfg) \<and> goes_through w
       \<and> PINECONE_INDEX_NAME cfg \<notin> set (map fst (remote w))"
  let ?w1 = "w\<lparr>faults := tl (faults w),
                out := out w @ [IndexNotFound (PINECONE_INDEX_NAME cfg)]\<rparr>"
  from a have "get_vector_db cfg w = (Inr None, ?w1)"
    using get_vector_db_no_index[of w cfg] by simp
  then have q: "query_data ev cfg q t k w = (Inr [], ?w1\<lparr>out := out ?w1 @ [NoVectorDatabase]\<rparr>)"
    by (rule query_data_no_handle)
  show "fst (query_data ev cfg q t k w) = Inr []"
    and "out (snd (query_data ev cfg q t k w)) =
          out w @ [IndexNotFound (PINECONE_INDEX_NAME cfg), NoVectorDatabase]"
    and "remote (snd (query_data ev cfg q t k w)) = remote w"
    by (simp_all add: q)
qed

theorem query_data_without_handle_returns_empty_witness:
  "fst (query_data example_env example_cfg ''alpha'' (7 / 10) 3 empty_world) = Inr []
   \<and> out (snd (query_data example_env example_cfg ''alpha'' (7 / 10) 3 empty_world)) =
       [IndexNotFound ''rag-ai-agent'', NoVectorDatabase]
   \<and> remote (snd (query_data example_env example_cfg ''alpha'' (7 / 10) 3 empty_world)) = []"
  using query_data_without_handle_returns_empty
          [of example_cfg empty_world empty_world example_env "''alpha''" "7 / 10" 3
              "\<lparr>obj_id = 0, bound_index = []\<rparr>" "[]" empty_world]
  by (simp add: example_cfg_def empty_world_def truthy_def goes_through_def)

text \<open>
  The claim C2 as stated fails: with no index at all the query is a success with the
  empty list, exactly the value of a threshold miss against an existing index.
\<close>

theorem query_data_absent_index_counterexample:
  "fst (query_data example_env example_cfg ''alpha'' (7 / 10) 3 empty_world) = Inr []
   \<and> fst (query_data example_env example_cfg ''omega'' (7 / 10) 3 example_world) = Inr []"
  by (simp add: example_simps)

subsection \<open>Destructive overwrite\<close>

lemma clean_tl: "clean fs \<Longrightarrow> clean (tl fs)"
  by (cases fs) simp_all

lemma clean_goes_through: "clean (faults w) \<Longrightarrow> goes_through w"
  by (cases "faults w") (auto simp: goes_through_def)

lemma list_indexes_clean:
  "clean (faults w) \<Longrightarrow>
     list_indexes w = (Inr (map fst (remote w)), w\<lparr>faults := tl (faults w)\<rparr>)"
  by (simp add: list_indexes_def bind_io_def network_call_goes_through clean_goes_through)

text \<open>
  Whenever the index is not there at line 58, the call of line 59 raises: the index
  is not created and nothing is stored. With \<open>overwrite=True\<close> and the index present
  that is always so, since line 54 has just deleted it.
\<close>

lemma save_to_pinecone_overwrite_raises:
  assumes key: "truthy (PINECONE_API_KEY cfg)"
      and ex: "PINECONE_INDEX_NAME cfg \<in> set (map fst (remote w))"
      and cl: "clean (faults w)"
  shows "save_to_pinecone cfg chunks True w =
           (Inl (TypeError missing_spec),
            w\<lparr>remote := filter (\<lambda>p. fst p \<noteq> PINECONE_INDEX_NAME cfg) (remote w),
              vector_db := None,
              faults := tl (tl (tl (faults w))),
              out := out w @ [DeletedIndex (PINECONE_INDEX_NAME cfg)]\<rparr>)"
proof -
  have c1: "clean (tl (faults w))" using cl by (rule clean_tl)
  have c2: "clean (tl (tl (faults w)))" using c1 by (rule clean_tl)
  note gt = clean_goes_through
  show ?thesis
    using key ex
    by (simp add: save_to_pinecone_def bind_io_def list_indexes_def delete_index_def
          create_index_def print_io_def set_vector_db_def raise_io_def
          network_call_goes_through gt cl c1 c2 name_deleted)
qed

lemma save_to_pinecone_absent_raises:
  assumes key: "truthy (PINECONE_API_KEY cfg)"
      and ex: "PINECONE_INDEX_NAME cfg \<notin> set (map fst (remote w))"
      and cl: "clean (faults w)"
  shows "fst (save_to_pinecone cfg chunks overwrite w) = Inl (TypeError missing_spec)
         \<and> remote (snd (save_to_pinecone cfg chunks overwrite w)) = remote w"
proof -
  have c1: "clean (tl (faults w))" using cl by (rule clean_tl)
  note gt = clean_goes_through
  show ?thesis
    using key ex
    by (cases overwrite)
       (simp_all add: save_to_pinecone_def bind_io_def list_indexes_def
          create_index_def print_io_def set_vector_db_def raise_io_def pure_io_def
          network_call_goes_through gt cl c1)
qed

text \<open>
  C4, as the code has it. The index \<open>rag-ai-agent\<close> exists and holds two records; no
  failure is injected. \<open>save_to_pinecone([beta], overwrite=True)\<close> deletes the index
  and prints so, then raises \<open>TypeError\<close> at line 59, where \<open>create_index\<close> is called
  without the \<open>spec\<close> the client requires: no index is left, nothing has been stored,
  and \<open>_vector_db\<close> is \<open>None\<close>. A query for the new content afterwards finds no index
  and returns the empty list, and so does \<open>process_files\<close> with \<open>overwrite=True\<close>,
  which reports the failure as \<open>(False, str(e))\<close> and leaves no index either. The old
  records are gone, as the claim says, but the new ones are not retrievable.
\<close>

theorem overwrite_deletes_then_raises:
  "save_to_pinecone example_cfg [doc ''beta'' ''new.txt''] True example_world =
     (Inl (TypeError missing_spec),
      \<lparr>remote = [], vector_db = None, faults = [], next_obj = 0,
       out = [DeletedIndex ''rag-ai-agent'']\<rparr>)
   \<and> query_data example_env example_cfg ''beta'' (7 / 10) 3
        (snd (save_to_pinecone example_cfg [doc ''beta'' ''new.txt''] True example_world)) =
       (Inr [],
        \<lparr>remote = [], vector_db = None, faults = [], next_obj = 0,
         out = [DeletedIndex ''rag-ai-agent'', IndexNotFound ''rag-ai-agent'',
                NoVectorDatabase]\<rparr>)
   \<and> fst (process_files example_env example_cfg (Some [''notes.txt'']) True example_world) =
       Inr (False, missing_spec)
   \<and> remote (snd (process_files example_env example_cfg (Some [''notes.txt'']) True
                     example_world)) = []"
proof -
  have save: "save_to_pinecone example_cfg [doc ''beta'' ''new.txt''] True example_world =
     (Inl (TypeError missing_spec),
      \<lparr>remote = [], vector_db = None, faults = [], next_obj = 0,
       out = [DeletedIndex ''rag-ai-agent'']\<rparr>)"
    by (simp add: save_to_pinecone_def bind_io_def list_indexes_def delete_index_def
          create_index_def print_io_def set_vector_db_def raise_io_def network_call_def
          example_cfg_def example_world_def truthy_def)
  have query: "query_data example_env example_cfg ''beta'' (7 / 10) 3
        \<lparr>remote = [], vector_db = None, faults = [], next_obj = 0,
         out = [DeletedIndex ''rag-ai-agent'']\<rparr> =
       (Inr [],
        \<lparr>remote = [], vector_db = None, faults = [], next_obj = 0,
         out = [DeletedIndex ''rag-ai-agent'', IndexNotFound ''rag-ai-agent'',
                NoVectorDatabase]\<rparr>)"
    by (simp add: query_data_def get_vector_db_def bind_io_def list_indexes_def
          print_io_def pure_io_def network_call_def example_cfg_def truthy_def)
  have process: "process_files example_env example_cfg (Some [''notes.txt'']) True example_world =
      (Inr (False, missing_spec),
       \<lparr>remote = [], vector_db = None, faults = [], next_obj = 0,
        out = [LoadedDocuments 1 1, SplitDocuments 1 1, DeletedIndex ''rag-ai-agent'',
               ErrorProcessing missing_spec]\<rparr>)"
    by (simp add: process_files_def load_documents_def text_spliter_def endswith_def
          save_to_pinecone_def bind_io_def list_indexes_def delete_index_def
          create_index_def print_io_def set_vector_db_def raise_io_def pure_io_def
          network_call_def example_cfg_def example_world_def truthy_def
          text_loader_def example_read_file_def example_env_def str_of_def splitter_simps)
  show ?thesis
    by (simp only: save query process fst_conv snd_conv world.simps simp_thms)
qed

subsection \<open>The loader\<close>

lemma endswith_last: "endswith s suf \<Longrightarrow> suf \<noteq> [] \<Longrightarrow> last s = last suf"
proof -
  assume e: "endswith s suf" and n: "suf \<noteq> []"
  then have d: "drop (length s - length suf) s = suf" by (simp add: endswith_def)
  with n have "drop (length s - length suf) s \<noteq> []" by simp
  then have "last (drop (length s - length suf) s) = last s" by (simp add: last_drop)
  with d show ?thesis by simp
qed

lemma endswith_length: "endswith s suf \<Longrightarrow> endswith s suf' \<Longrightarrow> length suf = length suf' \<Longrightarrow> suf = suf'"
  by (simp add: endswith_def)

lemma txt_is_not_pdf_or_md:
  assumes "endswith p ''.txt''"
  shows "\<not> endswith p ''.pdf''" and "\<not> endswith p ''.md''"
proof -
  show "\<not> endswith p ''.pdf''"
    using endswith_length[OF assms, of "''.pdf''"] by auto
  show "\<not> endswith p ''.md''"
    using endswith_last[OF assms] endswith_last[of p "''.md''"] by auto
qed

lemma load_loop_append:
  "load_loop ev (xs @ ys) docs w = bind_io (load_loop ev xs docs) (load_loop ev ys) w"
proof (induction xs arbitrary: docs w)
  case Nil
  show ?case by (simp add: bind_io_def pure_io_def)
next
  case (Cons x xs)
  show ?case
    by (simp add: Cons.IH bind_io_def raise_io_def print_io_def
          split: sum.splits error.splits)
qed

lemma load_loop_result: "fst (load_loop ev ps docs w) = fst (load_loop ev ps docs w')"
proof (induction ps arbitrary: docs w w')
  case Nil
  show ?case by (simp add: pure_io_def)
next
  case (Cons p ps)
  show ?case
    using Cons.IH
    by (simp add: raise_io_def bind_io_def print_io_def split: sum.splits error.splits)
qed

lemma load_documents_result: "fst (load_documents ev ps w) = fst (load_loop ev ps [] w)"
  by (cases "load_loop ev ps [] w")
     (simp add: load_documents_def bind_io_def print_io_def pure_io_def split: sum.splits)

lemma text_loader_raises_runtime_error:
  "text_loader ev p enc = Inl e \<Longrightarrow> e = RuntimeError (''Error loading '' @ p)"
  by (auto simp: text_loader_def split: sum.splits)

lemma load_loop_txt_loaded:
  assumes "endswith p ''.txt''" and "read_file ev p Utf8 = Inr content"
  shows "load_loop ev (p # rest) docs w =
           load_loop ev rest
             (docs @ [\<lparr>page_content = content, source = p, start_index = None\<rparr>]) w"
  using assms txt_is_not_pdf_or_md[OF assms(1)] by (simp add: text_loader_def)

lemma load_loop_txt_raises:
  assumes "endswith p ''.txt''" and "read_file ev p Utf8 = Inl e"
  shows "load_loop ev (p # rest) docs w = (Inl (RuntimeError (''Error loading '' @ p)), w)"
  using assms txt_is_not_pdf_or_md[OF assms(1)] by (simp add: text_loader_def raise_io_def)

lemma load_documents_txt_raises:
  assumes "endswith p ''.txt''" and "read_file ev p Utf8 = Inl e"
  shows "load_documents ev (before @ p # rest) w =
           (case load_loop ev before [] w of
              (Inl e', w1) \<Rightarrow> (Inl e', w1)
            | (Inr ds, w1) \<Rightarrow> (Inl (RuntimeError (''Error loading '' @ p)), w1))"
proof -
  obtain r w1 where b: "load_loop ev before [] w = (r, w1)"
    by (cases "load_loop ev before [] w")
  have "load_loop ev (before @ p # rest) [] w =
          (case r of Inl e' \<Rightarrow> (Inl e', w1)
                   | Inr ds \<Rightarrow> (Inl (RuntimeError (''Error loading '' @ p)), w1))"
    unfolding load_loop_append
    by (simp only: bind_io_def b load_loop_txt_raises[OF assms] prod.case split: sum.splits)
  then show ?thesis
    unfolding load_documents_def
    by (cases r) (simp_all add: bind_io_def b)
qed

lemmas loader_simps =
  load_documents_def endswith_def example_env_def example_read_file_def text_loader_def
  doc_def bind_io_def pure_io_def raise_io_def print_io_def empty_world_def

text \<open>
  C8, as the code has it. \<open>notes.txt\<close> is UTF-8; the bytes of \<open>legacy.txt\<close> are not
  UTF-8 but read as Latin-1. The library's \<open>TextLoader\<close> turns the decode failure
  into \<open>RuntimeError("Error loading legacy.txt")\<close>, which the \<open>except
  UnicodeDecodeError\<close> of line 109 does not catch: the file is not retried as Latin-1,
  the exception leaves \<open>load_documents\<close>, and the documents of the other files are
  not returned. Nothing is printed, and \<open>process_files\<close> reports the batch as failed.
\<close>

theorem undecodable_text_file_aborts_batch:
  "read_file example_env ''legacy.txt'' Utf8 = Inl UnicodeDecodeError
   \<and> read_file example_env ''legacy.txt'' Latin1 = Inr ''beta''
   \<and> load_documents example_env [''notes.txt'', ''legacy.txt'', ''notes.txt''] empty_world =
       (Inl (RuntimeError ''Error loading legacy.txt''), empty_world)
   \<and> load_documents example_env [''notes.txt'', ''notes.txt''] empty_world =
       (Inr [doc ''alpha'' ''notes.txt'', doc ''alpha'' ''notes.txt''],
        empty_world\<lparr>out := [LoadedDocuments 2 2]\<rparr>)
   \<and> process_files example_env example_cfg
        (Some [''notes.txt'', ''legacy.txt'', ''notes.txt'']) False example_world =
       (Inr (False, ''Error loading legacy.txt''),
        example_world\<lparr>out := [ErrorProcessing ''Error loading legacy.txt'']\<rparr>)"
  by (simp add: loader_simps process_files_def str_of_def example_world_def)

lemma load_loop_unsupported:
  assumes "\<not> endswith p ''.pdf''" and "\<not> endswith p ''.md''" and "\<not> endswith p ''.txt''"
  shows "load_loop ev (p # rest) docs w = (Inl (ValueError (UnsupportedFileType p)), w)"
  using assms by (simp add: raise_io_def)

lemma load_documents_unsupported:
  assumes "\<not> endswith p ''.pdf''" and "\<not> endswith p ''.md''" and "\<not> endswith p ''.txt''"
  shows "load_documents ev (before @ p # rest) w =
           (case load_loop ev before [] w of
              (Inl e, w1) \<Rightarrow> (Inl e, w1)
            | (Inr ds, w1) \<Rightarrow> (Inl (ValueError (UnsupportedFileType p)), w1))"
proof -
  obtain r w1 where b: "load_loop ev before [] w = (r, w1)"
    by (cases "load_loop ev before [] w")
  have "load_loop ev (before @ p # rest) [] w =
          (case r of Inl e \<Rightarrow> (Inl e, w1)
                   | Inr ds \<Rightarrow> (Inl (ValueError (UnsupportedFileType p)), w1))"
    unfolding load_loop_append
    by (simp only: bind_io_def b load_loop_unsupported[OF assms] prod.case split: sum.splits)
  then show ?thesis
    unfolding load_documents_def
    by (cases r) (simp_all add: bind_io_def b)
qed

text \<open>
  C9. A batch that contains a path ending in none of \<open>.pdf\<close>, \<open>.md\<close>, \<open>.txt\<close> returns no
  document list: the call ends with an exception, whatever the files before it gave.
  When the loop reaches that path (the files before it were loaded or left out), the
  exception is the \<open>ValueError\<close> "Unsupported file type" for it, raised where the loop
  stood, and the documents loaded so far are dropped.
\<close>

theorem load_documents_unsupported_aborts:
  assumes "\<not> endswith p ''.pdf''" and "\<not> endswith p ''.md''" and "\<not> endswith p ''.txt''"
  shows "(\<exists>e. fst (load_documents ev (before @ p # rest) w) = Inl e)
       \<and> (load_loop ev before [] w = (Inr ds, w1) \<longrightarrow>
            load_documents ev (before @ p # rest) w =
              (Inl (ValueError (UnsupportedFileType p)), w1))"
  using load_documents_unsupported[OF assms, of ev before rest w]
  by (cases "load_loop ev before [] w") (auto split: sum.splits)

theorem load_documents_unsupported_aborts_witness:
  "\<not> endswith ''sheet.xlsx'' ''.pdf'' \<and> \<not> endswith ''sheet.xlsx'' ''.md''
   \<and> \<not> endswith ''sheet.xlsx'' ''.txt''
   \<and> load_loop example_env [''notes.txt''] [] empty_world =
       (Inr [doc ''alpha'' ''notes.txt''], empty_world)
   \<and> load_documents example_env [''notes.txt'', ''sheet.xlsx'', ''legacy.txt''] empty_world =
       (Inl (ValueError (UnsupportedFileType ''sheet.xlsx'')), empty_world)"
proof -
  have a: "\<not> endswith ''sheet.xlsx'' ''.pdf''" and b: "\<not> endswith ''sheet.xlsx'' ''.md''"
    and c: "\<not> endswith ''sheet.xlsx'' ''.txt''"
    by (simp_all add: endswith_def)
  have before: "load_loop example_env [''notes.txt''] [] empty_world =
       (Inr [doc ''alpha'' ''notes.txt''], empty_world)"
    by (simp add: loader_simps)
  show ?thesis
    using load_documents_unsupported_aborts[OF a b c, of example_env "[''notes.txt'']"
            "[''legacy.txt'']" empty_world "[doc ''alpha'' ''notes.txt'']" empty_world]
          a b c before
    by simp
qed

subsection \<open>The splitter after the design: the ceiling\<close>

lemma carry_over_fits:
  "total (carry_over chunk_size chunk_overlap n cur) \<le> chunk_overlap
   \<and> (total (carry_over chunk_size chunk_overlap n cur) + n \<le> chunk_size
        \<or> total (carry_over chunk_size chunk_overlap n cur) = 0)"
  by (induction cur) auto

lemma merge_splits_ceiling:
  assumes "total cur \<le> chunk_size" and "\<forall>d \<in> set ds. length (snd d) \<le> chunk_size"
  shows "\<forall>c \<in> set (merge_splits chunk_size chunk_overlap cur ds). length (snd c) \<le> chunk_size"
  using assms
proof (induction ds arbitrary: cur)
  case Nil
  then show ?case by simp
next
  case (Cons d ds)
  let ?kept = "carry_over chunk_size chunk_overlap (length (snd d)) cur"
  have d: "length (snd d) \<le> chunk_size" using Cons.prems(2) by simp
  have rest: "\<forall>x \<in> set ds. length (snd x) \<le> chunk_size" using Cons.prems(2) by simp
  show ?case
  proof (cases "total cur + length (snd d) > chunk_size \<and> cur \<noteq> []")
    case True
    have "total (?kept @ [d]) \<le> chunk_size"
      using carry_over_fits[of chunk_size chunk_overlap "length (snd d)" cur] d by auto
    then have "\<forall>c \<in> set (merge_splits chunk_size chunk_overlap (?kept @ [d]) ds).
        length (snd c) \<le> chunk_size"
      using rest by (rule Cons.IH)
    with True Cons.prems(1) show ?thesis by simp
  next
    case False
    then have "total (cur @ [d]) \<le> chunk_size" using d by auto
    then have "\<forall>c \<in> set (merge_splits chunk_size chunk_overlap (cur @ [d]) ds).
        length (snd c) \<le> chunk_size"
      using rest by (rule Cons.IH)
    with False show ?thesis by auto
  qed
qed

lemma gather_ceiling:
  assumes "\<forall>g \<in> set good. length (snd g) \<le> chunk_size"
      and "\<forall>s \<in> set ss. \<forall>c \<in> set (finer s). length (snd c) \<le> chunk_size"
  shows "\<forall>c \<in> set (gather chunk_size chunk_overlap finer good ss). length (snd c) \<le> chunk_size"
  using assms
proof (induction ss arbitrary: good)
  case Nil
  then show ?case
    using merge_splits_ceiling[of "[]" chunk_size good chunk_overlap] by simp
next
  case (Cons s ss)
  have m: "\<forall>c \<in> set (merge_splits chunk_size chunk_overlap [] good). length (snd c) \<le> chunk_size"
    using merge_splits_ceiling[of "[]" chunk_size good chunk_overlap] Cons.prems(1) by simp
  have rest: "\<forall>s \<in> set ss. \<forall>c \<in> set (finer s). length (snd c) \<le> chunk_size"
    using Cons.prems(2) by simp
  show ?case
  proof (cases "length (snd s) < chunk_size")
    case True
    then have "\<forall>g \<in> set (good @ [s]). length (snd g) \<le> chunk_size"
      using Cons.prems(1) by auto
    then have "\<forall>c \<in> set (gather chunk_size chunk_overlap finer (good @ [s]) ss).
        length (snd c) \<le> chunk_size"
      using rest by (rule Cons.IH)
    with True show ?thesis by simp
  next
    case False
    have "\<forall>c \<in> set (gather chunk_size chunk_overlap finer [] ss). length (snd c) \<le> chunk_size"
      using rest by (intro Cons.IH) simp_all
    with False m Cons.prems(2) show ?thesis by auto
  qed
qed

lemma located_snd: "snd ` set (located off ps) = set ps"
  by (induction ps arbitrary: off) auto

lemma pieces_characters: "\<forall>p \<in> set (pieces [] text). length p = 1"
  by (auto simp: pieces_def)

lemma split_text_whole: "c \<in> set (split_text chunk_size chunk_overlap [] p) \<Longrightarrow> c = p"
  by (cases p) (auto split: if_splits)

lemma split_text_ceiling:
  assumes "1 \<le> chunk_size" and "seps \<noteq> []" and "last seps = []"
  shows "\<forall>c \<in> set (split_text chunk_size chunk_overlap seps p). length (snd c) \<le> chunk_size"
  using assms
proof (induction chunk_size chunk_overlap seps p rule: split_text.induct)
  case (1 chunk_size chunk_overlap start str)
  then show ?case by simp
next
  case (2 chunk_size chunk_overlap sep seps start str)
  show ?case
  proof (cases "sep \<noteq> [] \<and> \<not> occurs sep str")
    case True
    with "2.prems" have "seps \<noteq> []" and "last seps = []"
      by (auto split: if_splits)
    then have ih: "\<forall>c \<in> set (split_text chunk_size chunk_overlap seps (start, str)).
        length (snd c) \<le> chunk_size"
      using True "2.prems"(1) by (intro "2.IH"(1)) simp_all
    have "split_text chunk_size chunk_overlap (sep # seps) (start, str) =
        split_text chunk_size chunk_overlap seps (start, str)"
      using True by simp
    with ih show ?thesis by (simp only:)
  next
    case False
    let ?finer = "\<lambda>p. split_text chunk_size chunk_overlap (if sep = [] then [] else seps) p"
    have f: "\<forall>s \<in> set (located start (pieces sep str)).
               \<forall>c \<in> set (?finer s). length (snd c) \<le> chunk_size"
    proof (cases "sep = []")
      case True
      have one: "\<forall>s \<in> set (located start (pieces [] str)). length (snd s) = 1"
      proof
        fix s assume "s \<in> set (located start (pieces [] str))"
        then have "snd s \<in> snd ` set (located start (pieces [] str))" by (rule imageI)
        then have "snd s \<in> set (pieces [] str)" by (simp only: located_snd)
        then show "length (snd s) = 1" using pieces_characters[of str] by blast
      qed
      have "\<forall>s \<in> set (located start (pieces [] str)).
               \<forall>c \<in> set (split_text chunk_size chunk_overlap [] s). length (snd c) \<le> chunk_size"
      proof (intro ballI)
        fix s c
        assume "s \<in> set (located start (pieces [] str))"
          and "c \<in> set (split_text chunk_size chunk_overlap [] s)"
        with one have "length (snd s) = 1" and "c = s"
          by (auto dest: split_text_whole simp del: split_text.simps)
        with "2.prems"(1) show "length (snd c) \<le> chunk_size" by simp
      qed
      with True show ?thesis by simp
    next
      case sep: False
      with "2.prems" have s: "seps \<noteq> []" "last seps = []"
        by (auto split: if_splits)
      have "\<forall>c \<in> set (split_text chunk_size chunk_overlap seps x). length (snd c) \<le> chunk_size"
        for x
        using False "2.prems"(1) s sep "2.IH"(2)[of x] by simp
      with sep show ?thesis by simp
    qed
    have "\<forall>c \<in> set (gather chunk_size chunk_overlap ?finer [] (located start (pieces sep str))).
            length (snd c) \<le> chunk_size"
      using f by (intro gather_ceiling) simp_all
    moreover have "split_text chunk_size chunk_overlap (sep # seps) (start, str) =
        gather chunk_size chunk_overlap ?finer [] (located start (pieces sep str))"
      by (subst split_text.simps(2)) (simp only: False if_False)
    ultimately show ?thesis by (simp only:)
  qed
qed

lemma boundaries_end_with_characters: "boundaries \<noteq> [] \<and> last boundaries = []"
  by (simp add: boundaries_def)

lemma recursive_split_documents_ceiling:
  assumes "1 \<le> chunk_size"
      and "c \<in> set (recursive_split_documents chunk_size chunk_overlap documents)"
  shows "length (page_content c) \<le> chunk_size"
proof -
  from assms(2) obtain d p where "d \<in> set documents"
      and p: "p \<in> set (split_text chunk_size chunk_overlap boundaries (0, page_content d))"
      and c: "c = \<lparr>page_content = snd p, source = source d, start_index = Some (int (fst p))\<rparr>"
    unfolding recursive_split_documents_def chunk_of_def by auto
  from p have "length (snd p) \<le> chunk_size"
    using split_text_ceiling[OF assms(1), of boundaries chunk_overlap "(0, page_content d)"]
          boundaries_end_with_characters
    by blast
  with c show ?thesis by simp
qed

text \<open>
  C5, against the splitter after the design. Every chunk it produces, for any
  \<open>chunk_size\<close> of at least one character, has a text of at most \<open>chunk_size\<close>
  characters; with that splitter in place of the library's, every chunk \<open>text_spliter\<close>
  returns has at most 500 characters.
\<close>

theorem splitter_chunk_ceiling:
  "(1 \<le> chunk_size \<and> c \<in> set (recursive_split_documents chunk_size chunk_overlap documents) \<longrightarrow>
      length (page_content c) \<le> chunk_size)
   \<and> (split_documents ev = recursive_split_documents
       \<and> fst (text_spliter ev documents w) = Inr chunks \<and> c \<in> set chunks \<longrightarrow>
      length (page_content c) \<le> 500)"
proof (intro conjI impI)
  assume "1 \<le> chunk_size \<and> c \<in> set (recursive_split_documents chunk_size chunk_overlap documents)"
  then show "length (page_content c) \<le> chunk_size"
    using recursive_split_documents_ceiling[of chunk_size c chunk_overlap documents] by simp
next
  assume a: "split_documents ev = recursive_split_documents
       \<and> fst (text_spliter ev documents w) = Inr chunks \<and> c \<in> set chunks"
  then have "chunks = recursive_split_documents 500 100 documents"
    by (auto simp: text_spliter_def Let_def bind_io_def print_io_def pure_io_def)
  with a show "length (page_content c) \<le> 500"
    using recursive_split_documents_ceiling[of 500 c 100 documents] by simp
qed

theorem splitter_chunk_ceiling_witness:
  "recursive_split_documents 10 3 [doc ''One two. Three four five six. Seven.'' ''a.txt''] =
     [\<lparr>page_content = ''One two. '', source = ''a.txt'', start_index = Some 0\<rparr>,
      \<lparr>page_content = ''Three four'', source = ''a.txt'', start_index = Some 9\<rparr>,
      \<lparr>page_content = ''our five s'', source = ''a.txt'', start_index = Some 16\<rparr>,
      \<lparr>page_content = ''e six. '', source = ''a.txt'', start_index = Some 23\<rparr>,
      \<lparr>page_content = ''Seven.'', source = ''a.txt'', start_index = Some 30\<rparr>]
   \<and> length (page_content
        \<lparr>page_content = ''Three four'', source = ''a.txt'', start_index = Some 9\<rparr>) \<le> 10
   \<and> split_documents example_env = recursive_split_documents
   \<and> fst (text_spliter example_env [doc ''alpha'' ''notes.txt''] empty_world) =
       Inr [\<lparr>page_content = ''alpha'', source = ''notes.txt'', start_index = Some 0\<rparr>]
   \<and> length (page_content
        \<lparr>page_content = ''alpha'', source = ''notes.txt'', start_index = Some 0\<rparr>) \<le> 500"
proof -
  let ?d = "[doc ''One two. Three four five six. Seven.'' ''a.txt'']"
  let ?c = "\<lparr>page_content = ''Three four'', source = ''a.txt'', start_index = Some 9\<rparr>"
  let ?a = "\<lparr>page_content = ''alpha'', source = ''notes.txt'', start_index = Some 0\<rparr>"
  have run: "recursive_split_documents 10 3 ?d =
     [\<lparr>page_content = ''One two. '', source = ''a.txt'', start_index = Some 0\<rparr>,
      ?c,
      \<lparr>page_content = ''our five s'', source = ''a.txt'', start_index = Some 16\<rparr>,
      \<lparr>page_content = ''e six. '', source = ''a.txt'', start_index = Some 23\<rparr>,
      \<lparr>page_content = ''Seven.'', source = ''a.txt'', start_index = Some 30\<rparr>]"
    by (simp add: splitter_simps)
  have env: "split_documents example_env = recursive_split_documents"
    by (simp add: example_env_def)
  have small: "fst (text_spliter example_env [doc ''alpha'' ''notes.txt''] empty_world) = Inr [?a]"
    by (simp add: text_spliter_def bind_io_def print_io_def pure_io_def example_env_def
          splitter_simps)
  show ?thesis
    using splitter_chunk_ceiling[where chunk_size = 10 and c = ?c and chunk_overlap = 3
            and documents = ?d and ev = example_env and w = empty_world and chunks = "[]"]
          splitter_chunk_ceiling[where chunk_size = 500 and c = ?a and chunk_overlap = 100
            and documents = "[doc ''alpha'' ''notes.txt'']" and ev = example_env
            and w = empty_world and chunks = "[?a]"]
          run env small
    by simp
qed

subsection \<open>The splitter after the design: the overlap\<close>

lemma tiles_append:
  "tiles a (xs @ ys) b = (tiles a xs (a + total xs) \<and> tiles (a + total xs) ys b)"
  by (induction xs arbitrary: a) (auto simp: add.assoc)

lemma tiles_hd: "tiles a cur b \<Longrightarrow> cur \<noteq> [] \<Longrightarrow> fst (hd cur) = a"
  by (cases cur) auto

lemma tiles_end: "tiles a cur b \<Longrightarrow> b = a + total cur"
proof (induction cur arbitrary: a)
  case Nil
  then show ?case by simp
next
  case (Cons p ps)
  then have "b = (a + length (snd p)) + total ps" by simp
  then show ?case by simp
qed

lemma joined_fst [simp]: "fst (joined cur) = fst (hd cur)"
  by (simp add: joined_def)

lemma covers_start: "covers chunk_overlap a (c # cs) b \<Longrightarrow> fst c = a"
  by (cases cs) auto

lemma covers_append:
  assumes "covers chunk_overlap a xs m" and "covers chunk_overlap m ys b"
  shows "covers chunk_overlap a (xs @ ys) b"
  using assms
proof (induction chunk_overlap a xs m rule: covers.induct)
  case (1 chunk_overlap a b)
  then show ?case by simp
next
  case (2 chunk_overlap a c m)
  then have c: "fst c = a" "a + length (snd c) = m" by simp_all
  show ?case
  proof (cases ys)
    case Nil
    with "2.prems" c show ?thesis by simp
  next
    case (Cons y list)
    with "2.prems" have y: "fst y = m" by (auto dest: covers_start)
    with "2.prems" Cons have "covers chunk_overlap (fst y) (y # list) b" by simp
    with c y Cons show ?thesis by simp
  qed
next
  case (3 chunk_overlap a c d cs b)
  then show ?case by simp
qed

lemma carry_over_suffix:
  "\<exists>dropped. cur = dropped @ carry_over chunk_size chunk_overlap n cur"
proof (induction cur)
  case Nil
  show ?case by simp
next
  case (Cons p ps)
  then obtain dropped where d: "ps = dropped @ carry_over chunk_size chunk_overlap n ps"
    by blast
  show ?case
  proof (cases "total (p # ps) > chunk_overlap
                \<or> (total (p # ps) + n > chunk_size \<and> total (p # ps) > 0)")
    case True
    then have "carry_over chunk_size chunk_overlap n (p # ps) =
        carry_over chunk_size chunk_overlap n ps"
      by simp
    with d have "p # ps = (p # dropped) @ carry_over chunk_size chunk_overlap n (p # ps)"
      by simp
    then show ?thesis by blast
  next
    case False
    then have "carry_over chunk_size chunk_overlap n (p # ps) = p # ps"
      by (simp only: carry_over.simps if_False)
    then have "p # ps = [] @ carry_over chunk_size chunk_overlap n (p # ps)" by simp
    then show ?thesis by blast
  qed
qed

lemma merge_splits_nonempty: "cur \<noteq> [] \<Longrightarrow> merge_splits chunk_size chunk_overlap cur ds \<noteq> []"
  by (induction ds arbitrary: cur) auto

lemma merge_splits_covers:
  assumes "tiles a (cur @ ds) b"
  shows "covers chunk_overlap a (merge_splits chunk_size chunk_overlap cur ds) b"
  using assms
proof (induction ds arbitrary: cur a)
  case Nil
  show ?case
  proof (cases "cur = []")
    case True
    with Nil show ?thesis by simp
  next
    case False
    with Nil have "fst (hd cur) = a" and "b = a + total cur"
      by (auto dest: tiles_hd tiles_end)
    with False show ?thesis by simp
  qed
next
  case (Cons d ds)
  show ?case
  proof (cases "total cur + length (snd d) > chunk_size \<and> cur \<noteq> []")
    case False
    have "tiles a ((cur @ [d]) @ ds) b" using Cons.prems by simp
    then have "covers chunk_overlap a (merge_splits chunk_size chunk_overlap (cur @ [d]) ds) b"
      by (rule Cons.IH)
    with False show ?thesis by auto
  next
    case True
    let ?kept = "carry_over chunk_size chunk_overlap (length (snd d)) cur"
    let ?rest = "merge_splits chunk_size chunk_overlap (?kept @ [d]) ds"
    obtain dropped where dr: "cur = dropped @ ?kept"
      using carry_over_suffix[of cur chunk_size chunk_overlap "length (snd d)"] by blast
    have tot: "total cur = total dropped + total ?kept"
      using dr by (metis total_simps(3))
    have "tiles a (dropped @ ((?kept @ [d]) @ ds)) b"
      using Cons.prems dr by (metis append.assoc append_Cons append_Nil)
    then have t: "tiles (a + total dropped) ((?kept @ [d]) @ ds) b"
      by (simp only: tiles_append)
    then have c: "covers chunk_overlap (a + total dropped) ?rest b"
      by (rule Cons.IH)
    have ne: "?rest \<noteq> []" by (rule merge_splits_nonempty) simp
    then obtain r rs where r: "?rest = r # rs" by (cases ?rest) auto
    with c have start: "fst r = a + total dropped" by (auto dest: covers_start)
    have "tiles a cur (a + total cur)"
      using Cons.prems by (simp only: tiles_append)
    then have first: "fst (joined cur) = a"
      using True by (auto dest: tiles_hd)
    have small: "total ?kept \<le> chunk_overlap"
      using carry_over_fits[of chunk_size chunk_overlap "length (snd d)" cur] by simp
    have "covers chunk_overlap a (joined cur # r # rs) b"
      using c r start first tot small by simp
    with True r show ?thesis by simp
  qed
qed

lemma gather_covers:
  assumes "tiles a (good @ ss) b"
      and "\<forall>s \<in> set ss. covers chunk_overlap (fst s) (finer s) (fst s + length (snd s))"
  shows "covers chunk_overlap a (gather chunk_size chunk_overlap finer good ss) b"
  using assms
proof (induction ss arbitrary: good a)
  case Nil
  then show ?case
    using merge_splits_covers[of a "[]" good b chunk_overlap chunk_size] by simp
next
  case (Cons s ss)
  show ?case
  proof (cases "length (snd s) < chunk_size")
    case True
    have "tiles a ((good @ [s]) @ ss) b" using Cons.prems(1) by simp
    then have "covers chunk_overlap a (gather chunk_size chunk_overlap finer (good @ [s]) ss) b"
      using Cons.prems(2) by (intro Cons.IH) simp_all
    with True show ?thesis by simp
  next
    case False
    let ?m = "a + total good"
    have t: "tiles a good ?m" and s: "fst s = ?m"
      and rest: "tiles (?m + length (snd s)) ([] @ ss) b"
      using Cons.prems(1) by (simp_all add: tiles_append)
    have c1: "covers chunk_overlap a (merge_splits chunk_size chunk_overlap [] good) ?m"
      using t merge_splits_covers[of a "[]" good ?m chunk_overlap chunk_size] by simp
    have c2: "covers chunk_overlap ?m (finer s) (?m + length (snd s))"
      using Cons.prems(2) s by simp
    have c3: "covers chunk_overlap (?m + length (snd s))
        (gather chunk_size chunk_overlap finer [] ss) b"
      using rest Cons.prems(2) by (intro Cons.IH) simp_all
    have "covers chunk_overlap a
        (merge_splits chunk_size chunk_overlap [] good @ finer s
          @ gather chunk_size chunk_overlap finer [] ss) b"
      using c1 c2 c3 by (intro covers_append)
    with False show ?thesis by simp
  qed
qed

lemma concat_cut_after: "concat (cut_after sep cur rest) = cur @ rest"
proof (induction sep cur rest rule: cut_after.induct)
  case (1 sep cur)
  show ?case by simp
next
  case (2 sep cur c cs)
  show ?case
  proof (cases "sep \<noteq> [] \<and> take (length sep) (c # cs) = sep")
    case True
    then have "sep @ drop (length sep) (c # cs) = c # cs"
      by (metis append_take_drop_id)
    with True "2.IH"(1) show ?thesis by simp
  next
    case False
    with "2.IH"(2) show ?thesis by auto
  qed
qed

lemma concat_characters: "concat (map (\<lambda>c. [c]) str) = str"
  by (induction str) simp_all

lemma concat_pieces: "concat (pieces sep str) = str"
  by (simp add: pieces_def concat_cut_after concat_characters)

lemma tiles_located: "tiles off (located off ps) (off + length (concat ps))"
proof (induction ps arbitrary: off)
  case Nil
  show ?case by simp
next
  case (Cons p ps)
  have "tiles (off + length p) (located (off + length p) ps)
      ((off + length p) + length (concat ps))"
    by (rule Cons.IH)
  then show ?case by (simp add: add.assoc)
qed

lemma split_text_covers:
  "covers chunk_overlap (fst p) (split_text chunk_size chunk_overlap seps p) (fst p + length (snd p))"
proof (induction chunk_size chunk_overlap seps p rule: split_text.induct)
  case (1 chunk_size chunk_overlap start str)
  show ?case by simp
next
  case (2 chunk_size chunk_overlap sep seps start str)
  show ?case
  proof (cases "sep \<noteq> [] \<and> \<not> occurs sep str")
    case True
    have "split_text chunk_size chunk_overlap (sep # seps) (start, str) =
        split_text chunk_size chunk_overlap seps (start, str)"
      using True by simp
    with "2.IH"(1)[OF True] show ?thesis by (simp only: fst_conv snd_conv)
  next
    case False
    let ?finer = "\<lambda>p. split_text chunk_size chunk_overlap (if sep = [] then [] else seps) p"
    have t: "tiles start ([] @ located start (pieces sep str)) (start + length str)"
      using tiles_located[of start "pieces sep str"] by (simp add: concat_pieces)
    have f: "\<forall>s \<in> set (located start (pieces sep str)).
        covers chunk_overlap (fst s) (?finer s) (fst s + length (snd s))"
      using "2.IH"(2)[OF False] by blast
    have "covers chunk_overlap start
        (gather chunk_size chunk_overlap ?finer [] (located start (pieces sep str)))
        (start + length str)"
      using t f by (rule gather_covers)
    moreover have "split_text chunk_size chunk_overlap (sep # seps) (start, str) =
        gather chunk_size chunk_overlap ?finer [] (located start (pieces sep str))"
      by (subst split_text.simps(2)) (simp only: False if_False)
    ultimately show ?thesis by (simp only: fst_conv snd_conv)
  qed
qed

lemma covers_consecutive:
  assumes "covers chunk_overlap a cs b" and "Suc i < length cs"
  shows "fst (cs ! Suc i) \<le> fst (cs ! i) + length (snd (cs ! i))
         \<and> fst (cs ! i) + length (snd (cs ! i)) \<le> fst (cs ! Suc i) + chunk_overlap"
  using assms
proof (induction chunk_overlap a cs b arbitrary: i rule: covers.induct)
  case (1 chunk_overlap a b)
  then show ?case by simp
next
  case (2 chunk_overlap a c b)
  then show ?case by simp
next
  case (3 chunk_overlap a c d cs b)
  show ?case
  proof (cases i)
    case 0
    with "3.prems" show ?thesis by simp
  next
    case (Suc j)
    with "3.prems" have "covers chunk_overlap (fst d) (d # cs) b" and "Suc j < length (d # cs)"
      by simp_all
    then have "fst ((d # cs) ! Suc j) \<le> fst ((d # cs) ! j) + length (snd ((d # cs) ! j))
         \<and> fst ((d # cs) ! j) + length (snd ((d # cs) ! j)) \<le> fst ((d # cs) ! Suc j) + chunk_overlap"
      by (rule "3.IH")
    with Suc show ?thesis by simp
  qed
qed

lemma covers_ends:
  assumes "covers chunk_overlap a cs b" and "cs \<noteq> []"
  shows "fst (hd cs) = a \<and> fst (last cs) + length (snd (last cs)) = b"
  using assms
  by (induction chunk_overlap a cs b rule: covers.induct) auto

lemma text_spliter_single:
  assumes "split_documents ev = recursive_split_documents"
  shows "fst (text_spliter ev [d] w) =
           Inr (map (chunk_of d) (split_text 500 100 boundaries (0, page_content d)))"
  using assms
  by (auto simp: text_spliter_def Let_def bind_io_def print_io_def pure_io_def
        recursive_split_documents_def)


lemma three_paragraphs_chunks:
  "split_text 500 100 boundaries (0, three_paragraphs) =
     [(0, replicate 260 CHR ''a'' @ [CHR 0x0A, CHR 0x0A]),
      (262, replicate 260 CHR ''b'' @ [CHR 0x0A, CHR 0x0A]),
      (524, replicate 260 CHR ''c'')]"
  by code_simp



end
